theory Spec2Isabelle
  imports Complex_Main "HOL-Library.Log_Nat" "HOL-Library.Sublist"
begin

section \<open>JavaScript numbers\<close>

text \<open>
  A JavaScript number is an IEEE 754 binary64 value. A finite double is modelled by
  the rational number it denotes, so comparisons are exact and every arithmetic
  operation is the exact operation followed by \<open>round_double\<close>, rounding to the
  nearest double with ties to the even significand. The two zeros are one value
  \<open>Fin 0\<close>: no operation of \<^verbatim>\<open>server.js\<close> tells them apart (comparison, truthiness
  and \<^verbatim>\<open>toFixed\<close> treat \<^verbatim>\<open>-0\<close> as \<^verbatim>\<open>0\<close>).
\<close>

datatype jsnum = NaN | PInf | NInf | Fin rat

definition pow2 :: "int \<Rightarrow> rat" where
  "pow2 e = (if 0 \<le> e then 2 ^ nat e else 1 / 2 ^ nat (- e))"

text \<open>\<open>ilog2 x\<close> is \<open>\<lfloor>log\<^sub>2 x\<rfloor>\<close> for a positive rational \<open>x\<close>.\<close>

definition ilog2 :: "rat \<Rightarrow> int" where
  "ilog2 x =
     (let (p, q) = quotient_of x;
          k = bitlen p - bitlen q
      in if pow2 k \<le> x then k else k - 1)"

definition round_half_even :: "rat \<Rightarrow> int" where
  "round_half_even x =
     (let f = \<lfloor>x\<rfloor>; d = x - of_int f
      in if d < 1 / 2 then f
         else if 1 / 2 < d then f + 1
         else if even f then f else f + 1)"

text \<open>
  The unit in the last place of the binade of \<open>x\<close> is \<open>2 ^ e\<close>, with \<open>e\<close> at least
  \<open>-1074\<close> (subnormal numbers); a result of magnitude \<open>2 ^ 1024\<close> or more overflows
  to an infinity.
\<close>

definition round_double :: "rat \<Rightarrow> jsnum" where
  "round_double x =
     (if x = 0 then Fin 0
      else
        let e = max (ilog2 \<bar>x\<bar> - 52) (- 1074);
            r = of_int (round_half_even (x / pow2 e)) * pow2 e
        in if (2 :: int) ^ 1024 \<le> \<lfloor>\<bar>r\<bar>\<rfloor> then (if 0 < x then PInf else NInf) else Fin r)"

text \<open>A decimal literal of the source denotes the double nearest to it.\<close>

definition literal :: "rat \<Rightarrow> jsnum" where
  "literal d = round_double d"

fun js_lt :: "jsnum \<Rightarrow> jsnum \<Rightarrow> bool" where
  "js_lt NaN y = False"
| "js_lt x NaN = False"
| "js_lt (Fin a) (Fin b) = (a < b)"
| "js_lt PInf y = False"
| "js_lt x NInf = False"
| "js_lt NInf y = True"
| "js_lt x PInf = True"

definition js_le :: "jsnum \<Rightarrow> jsnum \<Rightarrow> bool" where
  "js_le x y = (x \<noteq> NaN \<and> y \<noteq> NaN \<and> (x = y \<or> js_lt x y))"

fun js_mul :: "jsnum \<Rightarrow> jsnum \<Rightarrow> jsnum" where
  "js_mul NaN y = NaN"
| "js_mul x NaN = NaN"
| "js_mul (Fin a) (Fin b) = round_double (a * b)"
| "js_mul x y =
     (if x = Fin 0 \<or> y = Fin 0 then NaN
      else if js_lt x (Fin 0) = js_lt y (Fin 0) then PInf else NInf)"

fun js_add :: "jsnum \<Rightarrow> jsnum \<Rightarrow> jsnum" where
  "js_add NaN y = NaN"
| "js_add x NaN = NaN"
| "js_add (Fin a) (Fin b) = round_double (a + b)"
| "js_add PInf NInf = NaN"
| "js_add NInf PInf = NaN"
| "js_add PInf y = PInf"
| "js_add x PInf = PInf"
| "js_add NInf y = NInf"
| "js_add x NInf = NInf"

text \<open>
  The string that \<^verbatim>\<open>x.toFixed(2)\<close> returns, by its content. For a finite \<open>x\<close> below
  \<open>10 ^ 21\<close> in magnitude it is the decimal with two fraction digits \<open>n / 100\<close>, where
  \<open>n\<close> is the integer nearest to \<open>100 * \<bar>x\<bar>\<close> and the larger one on a tie, with a
  minus sign when \<open>x < 0\<close>: \<open>Cents neg n\<close>. Otherwise it is the string of the number
  itself (\<^verbatim>\<open>"Infinity"\<close>, \<^verbatim>\<open>"NaN"\<close>, or the exponent form of a large double), which
  \<^verbatim>\<open>Number\<close> reads back as the same value: \<open>Verbatim x\<close>.
\<close>

datatype numstr = Verbatim jsnum | Cents bool int

definition toFixed2 :: "jsnum \<Rightarrow> numstr" where
  "toFixed2 x =
     (case x of
        Fin r \<Rightarrow>
          if 10 ^ 21 \<le> \<bar>r\<bar> then Verbatim x
          else Cents (r < 0) \<lfloor>\<bar>r\<bar> * 100 + 1 / 2\<rfloor>
      | _ \<Rightarrow> Verbatim x)"

definition Number :: "numstr \<Rightarrow> jsnum" where
  "Number s =
     (case s of
        Verbatim x \<Rightarrow> x
      | Cents neg n \<Rightarrow> round_double ((if neg then - 1 else 1) * of_int n / 100))"

section \<open>Values of a request body\<close>

text \<open>
  The values a field of the parsed JSON body can hold; \<open>Undefined\<close> is an absent
  field. An array or object is opaque: \<open>Obj r t\<close> is known by its reference \<open>r\<close>, which
  is how a \<^verbatim>\<open>Map\<close> compares it as a key, and by what its conversion to a string gives,
  the text \<open>t\<close> or, for \<open>None\<close>, a thrown \<^verbatim>\<open>TypeError\<close> (an object such as
  \<^verbatim>\<open>{"toString": 1}\<close>, or an array that holds one). Primitive keys are compared by
  value.
\<close>

datatype jsval = Undefined | Null | Bool bool | Num jsnum | Str string | Obj nat "string option"

fun truthy :: "jsval \<Rightarrow> bool" where
  "truthy Undefined = False"
| "truthy Null = False"
| "truthy (Bool b) = b"
| "truthy (Num n) = (n \<noteq> NaN \<and> n \<noteq> Fin 0)"
| "truthy (Str s) = (s \<noteq> [])"
| "truthy (Obj r t) = True"

text \<open>The operator \<^verbatim>\<open>a || b\<close>.\<close>

definition js_or :: "jsval \<Rightarrow> jsval \<Rightarrow> jsval" where
  "js_or a b = (if truthy a then a else b)"

text \<open>
  The four fields that the handler reads from \<^verbatim>\<open>req.body\<close>, the object that the JSON body
  parser has made of the request.
\<close>

record request_body =
  subtotal :: jsval
  reset :: jsval
  new_price :: jsval
  variant_id :: jsval

section \<open>Configuration\<close>

definition PROTECTION_VARIANT_DYNAMIC :: jsval where
  "PROTECTION_VARIANT_DYNAMIC = Str ''45626932789401''"

definition PROTECTION_THRESHOLD :: jsnum where
  "PROTECTION_THRESHOLD = literal 100"

definition PROTECTION_PERCENT :: jsnum where
  "PROTECTION_PERCENT = literal (3 / 100)"

definition PROTECTION_BASE_INCREMENT :: jsnum where
  "PROTECTION_BASE_INCREMENT = literal (1 / 100)"

section \<open>Errors, remote responses and endpoint responses\<close>

text \<open>A thrown \<^verbatim>\<open>Error\<close>: its \<^verbatim>\<open>message\<close> and its \<^verbatim>\<open>status\<close> property, when set.\<close>

datatype js_error = Error string "nat option"

text \<open>
  \<^verbatim>\<open>json.variant\<close> of the remote reply: \<open>NoVariant\<close> when it is undefined and
  \<open>NullVariant\<close> when it is null (reading \<^verbatim>\<open>.id\<close> from either throws), otherwise its
  \<^verbatim>\<open>id\<close> and \<^verbatim>\<open>price\<close>.
\<close>

datatype variant_json = NoVariant | NullVariant | Variant jsval jsval

text \<open>
  What \<^verbatim>\<open>fetch\<close> resolves to. \<open>res_text\<close> and \<open>res_json\<close> are the outcomes of
  \<^verbatim>\<open>await res.text()\<close> and of \<^verbatim>\<open>(await res.json()).variant\<close>; \<open>Inl\<close> is a rejection.
\<close>

record response =
  res_ok :: bool
  res_status :: nat
  res_statusText :: string
  res_text :: "js_error + string"
  res_json :: "js_error + variant_json"

datatype fetch_outcome = Rejects js_error | Resolves response

text \<open>
  The PUT request, by what varies in it: the identifier interpolated into the URL
  (and converted for \<^verbatim>\<open>variant.id\<close>), and \<^verbatim>\<open>variant.price\<close>.
\<close>

record fetch_request =
  url_variant :: jsval
  body_price :: numstr

text \<open>The \<^verbatim>\<open>note\<close> of a success reply names the rule that fired and the number it quotes.\<close>

datatype rule_note = ResetNote jsnum | FixedNote numstr | DynamicNote numstr

datatype reply = Failure string | Success jsval jsval rule_note

record http_response =
  status_code :: nat
  reply :: reply

fun digit_char :: "nat \<Rightarrow> char" where
  "digit_char d = ''0123456789'' ! d"

fun show_nat :: "nat \<Rightarrow> string" where
  "show_nat n = (if n < 10 then [digit_char n] else show_nat (n div 10) @ [digit_char (n mod 10)])"

declare show_nat.simps [simp del]

text \<open>
  The string that a template literal makes of a value, as in \<^verbatim>\<open>`${variantId}`\<close>. A number
  that is an integer below \<open>10 ^ 21\<close> in magnitude is written with its decimal digits.
  The text of any other finite number is left unexpanded as \<open>NumText r\<close>, so two equal
  texts of the model are equal strings of the program. The result is \<open>None\<close> when the
  conversion throws.
\<close>

datatype jstext = Chars string | NumText rat

fun number_text :: "jsnum \<Rightarrow> jstext" where
  "number_text NaN = Chars ''NaN''"
| "number_text PInf = Chars ''Infinity''"
| "number_text NInf = Chars ''-Infinity''"
| "number_text (Fin r) =
     (if r = of_int \<lfloor>r\<rfloor> \<and> \<bar>r\<bar> < 10 ^ 21
      then Chars ((if r < 0 then ''-'' else []) @ show_nat (nat \<lfloor>\<bar>r\<bar>\<rfloor>))
      else NumText r)"

fun js_to_string :: "jsval \<Rightarrow> jstext option" where
  "js_to_string Undefined = Some (Chars ''undefined'')"
| "js_to_string Null = Some (Chars ''null'')"
| "js_to_string (Bool b) = Some (Chars (if b then ''true'' else ''false''))"
| "js_to_string (Num n) = Some (number_text n)"
| "js_to_string (Str s) = Some (Chars s)"
| "js_to_string (Obj r t) = map_option Chars t"

section \<open>The lock map and the remote update\<close>

text \<open>
  The mutable state of the process: the \<^verbatim>\<open>locks\<close> map, and the trace of the calls
  \<^verbatim>\<open>updateVariantPrice(variantId, newPrice)\<close> made so far. Console output is left out.
\<close>

record world =
  locks :: "jsval \<rightharpoonup> bool"
  calls :: "(jsval \<times> jsnum) list"

definition lock_held :: "world \<Rightarrow> jsval \<Rightarrow> bool" where
  "lock_held w key = (locks w key = Some True)"

text \<open>
  The polling loop of \<^verbatim>\<open>withLock\<close>, for a request running alone: nothing else changes
  the map between two polls, so a held lock is polled for ever and the loop has no
  result.
\<close>

partial_function (option) await_unlocked :: "world \<Rightarrow> jsval \<Rightarrow> world option" where
  "await_unlocked w key = (if lock_held w key then await_unlocked w key else Some w)"

declare await_unlocked.simps [code]

text \<open>
  \<open>fn\<close> returns \<open>Inl\<close> when it throws; the \<^verbatim>\<open>finally\<close> block runs on both outcomes and
  the outcome is passed on.
\<close>

definition withLock :: "jsval \<Rightarrow> (world \<Rightarrow> 'a \<times> world) \<Rightarrow> world \<Rightarrow> ('a \<times> world) option" where
  "withLock key fn w =
     (case await_unlocked w key of
        None \<Rightarrow> None
      | Some w1 \<Rightarrow>
          let w2 = w1\<lparr>locks := (locks w1)(key \<mapsto> True)\<rparr>;
              (r, w3) = fn w2
          in Some (r, w3\<lparr>locks := (locks w3)(key := None)\<rparr>))"

text \<open>\<^verbatim>\<open>updateVariantPrice\<close> from the point where \<^verbatim>\<open>fetch\<close> has settled.\<close>

definition updateVariantPrice_result :: "fetch_outcome \<Rightarrow> js_error + variant_json" where
  "updateVariantPrice_result out =
     (case out of
        Rejects e \<Rightarrow> Inl e
      | Resolves res \<Rightarrow>
          if \<not> res_ok res then
            (case res_text res of
               Inl e \<Rightarrow> Inl e
             | Inr t \<Rightarrow>
                 Inl (Error (''Shopify Admin API error: '' @ show_nat (res_status res) @ '' ''
                             @ res_statusText res @ '' - '' @ t)
                        (Some (res_status res))))
          else res_json res)"

definition updateVariantPrice ::
    "(fetch_request \<Rightarrow> fetch_outcome) \<Rightarrow> jsval \<Rightarrow> jsnum \<Rightarrow> world \<Rightarrow> (js_error + variant_json) \<times> world" where
  "updateVariantPrice fetchFn variantId newPrice w =
     (let body = \<lparr>url_variant = variantId, body_price = toFixed2 newPrice\<rparr>
      in (updateVariantPrice_result (fetchFn body),
          w\<lparr>calls := calls w @ [(variantId, newPrice)]\<rparr>))"

section \<open>The handler of POST /update-protection\<close>

text \<open>
  What the handler has decided when it reaches \<^verbatim>\<open>withLock\<close>: the key it locks, the
  identifier and the price it passes to \<^verbatim>\<open>updateVariantPrice\<close>, and the note of its
  success reply.
\<close>

record job =
  lock_key :: jsval
  target :: jsval
  price :: jsnum
  job_note :: rule_note

definition bad_request :: "string \<Rightarrow> http_response" where
  "bad_request msg = \<lparr>status_code = 400, reply = Failure msg\<rparr>"

text \<open>The \<^verbatim>\<open>catch\<close> block: \<^verbatim>\<open>err.message || 'unknown error'\<close> with status 500.\<close>

fun server_error :: "js_error \<Rightarrow> http_response" where
  "server_error (Error msg st) =
     \<lparr>status_code = 500, reply = Failure (if msg = [] then ''unknown error'' else msg)\<rparr>"

text \<open>
  The handler up to its first \<^verbatim>\<open>await\<close>: the 400 reply of a failed validation, or the
  job it goes on with. In reset mode the log line before \<^verbatim>\<open>withLock\<close> writes
  \<^verbatim>\<open>${variant_id || PROTECTION_VARIANT_DYNAMIC}\<close> into a string; when that conversion
  throws, the \<^verbatim>\<open>catch\<close> block answers 500 and neither lock nor call is made. An
  identifier that has passed this line converts without error in \<^verbatim>\<open>updateVariantPrice\<close>
  too, where it is written into the URL and read as a number. The other log lines
  write numbers and constants only.
\<close>

definition update_protection_plan :: "request_body \<Rightarrow> http_response + job" where
  "update_protection_plan b =
     (if reset b = Bool True then
        (case new_price b of
           Num np \<Rightarrow>
             if np = NaN \<or> js_le np (Fin 0) then Inl (bad_request ''Invalid new_price for reset'')
             else if js_to_string (js_or (variant_id b) PROTECTION_VARIANT_DYNAMIC) = None then
               Inl (server_error (Error ''Cannot convert object to primitive value'' None))
             else Inr \<lparr>lock_key = js_or (variant_id b) PROTECTION_VARIANT_DYNAMIC,
                       target = js_or (variant_id b) PROTECTION_VARIANT_DYNAMIC,
                       price = np, job_note = ResetNote np\<rparr>
         | _ \<Rightarrow> Inl (bad_request ''Invalid new_price for reset''))
      else
        (case subtotal b of
           Num s \<Rightarrow>
             if s = NaN \<or> js_lt s (Fin 0) then
               Inl (bad_request ''subtotal must be a positive number (USD)'')
             else if js_lt s PROTECTION_THRESHOLD then
               let fixedPrice = literal (217 / 100)
               in Inr \<lparr>lock_key = PROTECTION_VARIANT_DYNAMIC, target = PROTECTION_VARIANT_DYNAMIC,
                         price = fixedPrice, job_note = FixedNote (toFixed2 s)\<rparr>
             else
               let feeRaw = js_mul s PROTECTION_PERCENT;
                   targetPrice = Number (toFixed2 (js_add feeRaw PROTECTION_BASE_INCREMENT))
               in Inr \<lparr>lock_key = PROTECTION_VARIANT_DYNAMIC, target = PROTECTION_VARIANT_DYNAMIC,
                         price = targetPrice, job_note = DynamicNote (toFixed2 s)\<rparr>
         | _ \<Rightarrow> Inl (bad_request ''subtotal must be a positive number (USD)'')))"

text \<open>
  The reply once the guarded call has settled. Reading \<^verbatim>\<open>updatedVariant.id\<close> throws a
  \<^verbatim>\<open>TypeError\<close> when the remote reply has no variant, and the \<^verbatim>\<open>catch\<close> block answers.
\<close>

definition respond :: "job \<Rightarrow> js_error + variant_json \<Rightarrow> http_response" where
  "respond j r =
     (case r of
        Inl err \<Rightarrow> server_error err
      | Inr NoVariant \<Rightarrow>
          server_error (Error ''Cannot read properties of undefined (reading 'id')'' None)
      | Inr NullVariant \<Rightarrow>
          server_error (Error ''Cannot read properties of null (reading 'id')'' None)
      | Inr (Variant vid vprice) \<Rightarrow> \<lparr>status_code = 200, reply = Success vid vprice (job_note j)\<rparr>)"

definition update_protection ::
    "(fetch_request \<Rightarrow> fetch_outcome) \<Rightarrow> request_body \<Rightarrow> world \<Rightarrow> (http_response \<times> world) option" where
  "update_protection fetchFn b w =
     (case update_protection_plan b of
        Inl resp \<Rightarrow> Some (resp, w)
      | Inr j \<Rightarrow>
          (case withLock (lock_key j) (updateVariantPrice fetchFn (target j) (price j)) w of
             None \<Rightarrow> None
           | Some (r, w') \<Rightarrow> Some (respond j r, w')))"

section \<open>Requests in flight together\<close>

text \<open>
  Node runs the handlers of all requests on one thread: a handler runs without
  interruption from one \<^verbatim>\<open>await\<close> to the next. Between the test of the polling loop
  that finds the key absent and \<^verbatim>\<open>locks.set(key, true)\<close> there is no \<^verbatim>\<open>await\<close>, and
  the call of \<^verbatim>\<open>fn\<close> follows at once. A request is therefore in one of three phases:
  \<open>Waiting\<close> in the polling loop, \<open>Running\<close> from \<^verbatim>\<open>locks.set\<close> to the \<^verbatim>\<open>finally\<close> block
  (the remote call is in flight), or \<open>Finished\<close> with its reply. The whole of
  \<^verbatim>\<open>updateVariantPrice\<close>, with its own \<^verbatim>\<open>await\<close>s, lies inside \<open>Running\<close>, and so do the
  steps from the settling of the call to the \<^verbatim>\<open>finally\<close> block, where the lock is still
  held.
\<close>

datatype task = Waiting job | Running job | Finished http_response

record server =
  shared :: world
  tasks :: "task list"

text \<open>
  The uninterrupted sections: a request arrives (validation, and the first test of
  the loop); the timer of a waiting request fires (the next test); the remote call
  of a running request settles (\<^verbatim>\<open>finally\<close>, then the reply).
\<close>

datatype event = Arrive request_body | Wake nat | Settle nat fetch_outcome

definition try_acquire :: "nat \<Rightarrow> server \<Rightarrow> server" where
  "try_acquire i s =
     (if i < length (tasks s) then
        (case tasks s ! i of
           Waiting j \<Rightarrow>
             if lock_held (shared s) (lock_key j) then s
             else s\<lparr>shared := (shared s)\<lparr>locks := (locks (shared s))(lock_key j \<mapsto> True),
                                           calls := calls (shared s) @ [(target j, price j)]\<rparr>,
                    tasks := (tasks s)[i := Running j]\<rparr>
         | _ \<Rightarrow> s)
      else s)"

fun exec :: "server \<Rightarrow> event \<Rightarrow> server" where
  "exec s (Arrive b) =
     (case update_protection_plan b of
        Inl resp \<Rightarrow> s\<lparr>tasks := tasks s @ [Finished resp]\<rparr>
      | Inr j \<Rightarrow> try_acquire (length (tasks s)) (s\<lparr>tasks := tasks s @ [Waiting j]\<rparr>))"
| "exec s (Wake i) = try_acquire i s"
| "exec s (Settle i out) =
     (if i < length (tasks s) then
        (case tasks s ! i of
           Running j \<Rightarrow>
             s\<lparr>shared := (shared s)\<lparr>locks := (locks (shared s))(lock_key j := None)\<rparr>,
               tasks := (tasks s)[i := Finished (respond j (updateVariantPrice_result out))]\<rparr>
         | _ \<Rightarrow> s)
      else s)"

definition run :: "server \<Rightarrow> event list \<Rightarrow> server" where
  "run s evs = foldl exec s evs"

definition quiet :: world where
  "quiet = \<lparr>locks = Map.empty, calls = []\<rparr>"

definition idle :: server where
  "idle = \<lparr>shared = quiet, tasks = []\<rparr>"

text \<open>The update of key \<open>k\<close> is in flight in task \<open>t\<close>.\<close>

fun in_flight :: "jsval \<Rightarrow> task \<Rightarrow> bool" where
  "in_flight k (Running j) = (target j = k)"
| "in_flight k t = False"

text \<open>
  Task \<open>t\<close> has an update in flight whose URL names the variant by the text \<open>u\<close>
  (line 48 of \<^verbatim>\<open>server.js\<close> writes the identifier into the path of the URL).
\<close>

fun writes_variant :: "jstext \<Rightarrow> task \<Rightarrow> bool" where
  "writes_variant u (Running j) = (js_to_string (target j) = Some u)"
| "writes_variant u t = False"

text \<open>
  What holds of the server between two events: two running tasks never share a key;
  a key is in the lock map, with the value \<^verbatim>\<open>true\<close>, exactly when a running task holds
  it; and every task locks the identifier that it updates.
\<close>

definition consistent :: "server \<Rightarrow> bool" where
  "consistent s =
     ((\<forall>i < length (tasks s). \<forall>j < length (tasks s). \<forall>a c.
         tasks s ! i = Running a \<and> tasks s ! j = Running c \<and> lock_key a = lock_key c
           \<longrightarrow> i = j)
      \<and> (\<forall>k. locks (shared s) k = None \<or> locks (shared s) k = Some True)
      \<and> (\<forall>k. locks (shared s) k = Some True
             \<longleftrightarrow> (\<exists>i < length (tasks s). \<exists>a. tasks s ! i = Running a \<and> lock_key a = k))
      \<and> (\<forall>i < length (tasks s). \<forall>a.
           tasks s ! i = Running a \<or> tasks s ! i = Waiting a \<longrightarrow> lock_key a = target a))"

section \<open>The price rule as the specification words it\<close>

text \<open>
  For a subtotal \<open>s\<close> of at least 100 the specification asks for \<open>0.03 * s + 0.01\<close>
  rounded half up to two decimal places; as a number of the program, that is the
  double nearest to this decimal.
\<close>

definition spec_dynamic_price :: "rat \<Rightarrow> jsnum" where
  "spec_dynamic_price s = literal (of_int \<lfloor>(3 / 100 * s + 1 / 100) * 100 + 1 / 2\<rfloor> / 100)"

section \<open>Sample remotes\<close>

text \<open>A remote that stores the price and answers with the variant, and one that refuses with 422.\<close>

definition remote_accepts :: "fetch_request \<Rightarrow> fetch_outcome" where
  "remote_accepts req =
     Resolves \<lparr>res_ok = True, res_status = 200, res_statusText = ''OK'',
               res_text = Inr [], res_json = Inr (Variant (url_variant req) (Str ''stored''))\<rparr>"

definition remote_refuses :: "fetch_request \<Rightarrow> fetch_outcome" where
  "remote_refuses req =
     Resolves \<lparr>res_ok = False, res_status = 422, res_statusText = ''Unprocessable Entity'',
               res_text = Inr ''{}'', res_json = Inl (Error ''body used already'' None)\<rparr>"

section \<open>Values of the constants\<close>

lemma threshold_value: "PROTECTION_THRESHOLD = Fin 100"
  unfolding PROTECTION_THRESHOLD_def literal_def by code_simp

lemma percent_value: "PROTECTION_PERCENT = Fin (1080863910568919 / 36028797018963968)"
  unfolding PROTECTION_PERCENT_def literal_def by code_simp

lemma increment_value: "PROTECTION_BASE_INCREMENT = Fin (5764607523034235 / 576460752303423488)"
  unfolding PROTECTION_BASE_INCREMENT_def literal_def by code_simp

lemma fixed_price_value: "literal (217 / 100) = Fin (1221601398924247 / 562949953421312)"
  unfolding literal_def by code_simp

lemma fixed_price_text: "toFixed2 (literal (217 / 100)) = Cents False 217"
  unfolding fixed_price_value by code_simp

section \<open>The lock of a request running alone\<close>

lemma await_unlocked_free: "\<not> lock_held w key \<Longrightarrow> await_unlocked w key = Some w"
  by (subst await_unlocked.simps) simp

lemma await_unlocked_Some:
  assumes "await_unlocked w key = Some r"
  shows "\<not> lock_held w key \<and> r = w"
  by (rule await_unlocked.raw_induct
        [where P = "\<lambda>w key r. \<not> lock_held w key \<and> r = w", OF _ assms])
     (auto split: if_splits)

lemma await_unlocked_held: "lock_held w key \<Longrightarrow> await_unlocked w key = None"
  using await_unlocked_Some [of w key] by (cases "await_unlocked w key") auto

lemma withLock_free:
  "\<not> lock_held w key \<Longrightarrow>
   withLock key fn w =
     Some (fst (fn (w\<lparr>locks := (locks w)(key \<mapsto> True)\<rparr>)),
           (snd (fn (w\<lparr>locks := (locks w)(key \<mapsto> True)\<rparr>)))
             \<lparr>locks := (locks (snd (fn (w\<lparr>locks := (locks w)(key \<mapsto> True)\<rparr>))))(key := None)\<rparr>)"
  by (simp add: withLock_def await_unlocked_free Let_def split_beta)

lemma withLock_held: "lock_held w key \<Longrightarrow> withLock key fn w = None"
  by (simp add: withLock_def await_unlocked_held)

section \<open>The handler in terms of its plan\<close>

lemma update_protection_rejected:
  "update_protection_plan b = Inl resp \<Longrightarrow> update_protection fetchFn b w = Some (resp, w)"
  by (simp add: update_protection_def)

lemma update_protection_free:
  assumes "update_protection_plan b = Inr j" and "\<not> lock_held w (lock_key j)"
  shows "update_protection fetchFn b w =
           Some (respond j (updateVariantPrice_result
                   (fetchFn \<lparr>url_variant = target j, body_price = toFixed2 (price j)\<rparr>)),
                 w\<lparr>locks := (locks w)(lock_key j := None),
                   calls := calls w @ [(target j, price j)]\<rparr>)"
  using assms
  by (simp add: update_protection_def withLock_free updateVariantPrice_def Let_def)

lemma update_protection_held:
  "update_protection_plan b = Inr j \<Longrightarrow> lock_held w (lock_key j) \<Longrightarrow>
   update_protection fetchFn b w = None"
  by (simp add: update_protection_def withLock_held)

lemma update_protection_cases:
  assumes "update_protection fetchFn b w = Some (resp, w')"
  shows "(update_protection_plan b = Inl resp \<and> w' = w)
         \<or> (\<exists>j. update_protection_plan b = Inr j \<and> \<not> lock_held w (lock_key j)
               \<and> resp = respond j (updateVariantPrice_result
                           (fetchFn \<lparr>url_variant = target j, body_price = toFixed2 (price j)\<rparr>))
               \<and> w' = w\<lparr>locks := (locks w)(lock_key j := None),
                         calls := calls w @ [(target j, price j)]\<rparr>)"
proof (cases "update_protection_plan b")
  case (Inl r)
  then show ?thesis using assms by (simp add: update_protection_def)
next
  case (Inr j)
  show ?thesis
  proof (cases "lock_held w (lock_key j)")
    case True
    then show ?thesis using assms update_protection_held [OF Inr True, of fetchFn] by simp
  next
    case False
    then show ?thesis using assms update_protection_free [OF Inr False, of fetchFn] Inr by simp
  qed
qed

lemma update_protection_calls:
  assumes "update_protection_plan b = Inr j" and "update_protection fetchFn b w = Some (resp, w')"
  shows "calls w' = calls w @ [(target j, price j)]"
  using update_protection_cases [OF assms(2)] assms(1) by auto

lemma falsy_not_true: "\<not> truthy v \<Longrightarrow> v \<noteq> Bool True"
  by auto

lemma quiet_free: "\<not> lock_held quiet key"
  by (simp add: lock_held_def quiet_def)

section \<open>The fixed price\<close>

lemma plan_fixed:
  assumes "reset b \<noteq> Bool True" and "subtotal b = Num (Fin r)" and "0 \<le> r" and "r < 100"
  shows "update_protection_plan b =
           Inr \<lparr>lock_key = PROTECTION_VARIANT_DYNAMIC, target = PROTECTION_VARIANT_DYNAMIC,
                 price = literal (217 / 100), job_note = FixedNote (toFixed2 (Fin r))\<rparr>"
  using assms by (simp add: update_protection_plan_def threshold_value)

text \<open>
  Claim C1. A request whose \<open>reset\<close> is falsy and whose \<open>subtotal\<close> is a number \<open>s\<close> with
  \<open>0 \<le> s < 100\<close> takes the fixed-price branch: the handler calls
  \<^verbatim>\<open>updateVariantPrice\<close> once, for the configured variant and with the price \<open>2.17\<close>, which
  the request to the remote carries as the text \<^verbatim>\<open>2.17\<close>: whenever the handler answers,
  this is the call it has made, and it does answer when the lock of the variant is free
  as the request arrives.
\<close>

theorem C1_fixed_price_below_threshold:
  assumes "\<not> truthy (reset b)" and "subtotal b = Num (Fin s)" and "0 \<le> s" and "s < 100"
  shows "update_protection_plan b =
           Inr \<lparr>lock_key = PROTECTION_VARIANT_DYNAMIC, target = PROTECTION_VARIANT_DYNAMIC,
                 price = literal (217 / 100), job_note = FixedNote (toFixed2 (Fin s))\<rparr>
         \<and> (\<forall>resp w'. update_protection fetchFn b w = Some (resp, w') \<longrightarrow>
               calls w' = calls w @ [(PROTECTION_VARIANT_DYNAMIC, literal (217 / 100))])
         \<and> (\<not> lock_held w PROTECTION_VARIANT_DYNAMIC \<longrightarrow>
               (\<exists>resp w'. update_protection fetchFn b w = Some (resp, w')))
         \<and> toFixed2 (literal (217 / 100)) = Cents False 217"
proof -
  let ?j = "\<lparr>lock_key = PROTECTION_VARIANT_DYNAMIC, target = PROTECTION_VARIANT_DYNAMIC,
              price = literal (217 / 100), job_note = FixedNote (toFixed2 (Fin s))\<rparr>"
  have plan: "update_protection_plan b = Inr ?j"
    using assms by (intro plan_fixed falsy_not_true)
  have "calls w' = calls w @ [(PROTECTION_VARIANT_DYNAMIC, literal (217 / 100))]"
    if "update_protection fetchFn b w = Some (resp, w')" for resp w'
    using update_protection_calls [OF plan that] by simp
  moreover have "\<exists>resp w'. update_protection fetchFn b w = Some (resp, w')"
    if "\<not> lock_held w PROTECTION_VARIANT_DYNAMIC"
    using update_protection_free [OF plan, of w fetchFn] that by simp
  ultimately show ?thesis
    using plan fixed_price_text by blast
qed

theorem C1_fixed_price_below_threshold_witness:
  "\<not> truthy Undefined \<and> (0 :: rat) \<le> 50 \<and> (50 :: rat) < 100
   \<and> \<not> lock_held quiet PROTECTION_VARIANT_DYNAMIC
   \<and> (\<exists>resp w'. update_protection remote_accepts
          \<lparr>subtotal = Num (Fin 50), reset = Undefined, new_price = Undefined,
            variant_id = Undefined\<rparr> quiet = Some (resp, w')
        \<and> calls w' = calls quiet @ [(PROTECTION_VARIANT_DYNAMIC, literal (217 / 100))])"
  using C1_fixed_price_below_threshold
    [of "\<lparr>subtotal = Num (Fin 50), reset = Undefined, new_price = Undefined,
           variant_id = Undefined\<rparr>" 50 remote_accepts quiet]
  by (simp add: quiet_free) blast

section \<open>The reset price\<close>

lemma quiet_calls: "calls quiet = []"
  by (simp add: quiet_def)

lemma js_le_zero_iff: "n \<noteq> NaN \<Longrightarrow> js_le n (Fin 0) = (\<not> js_lt (Fin 0) n)"
  by (cases n) (auto simp: js_le_def)

lemma js_lt_not_NaN: "js_lt x y \<Longrightarrow> x \<noteq> NaN \<and> y \<noteq> NaN"
  by (cases x; cases y) auto

lemma js_lt_zero_iff: "n \<noteq> NaN \<Longrightarrow> js_lt n (Fin 0) = (\<not> js_le (Fin 0) n)"
  by (cases n) (auto simp: js_le_def)

lemma default_prints: "js_to_string PROTECTION_VARIANT_DYNAMIC \<noteq> None"
  by (simp add: PROTECTION_VARIANT_DYNAMIC_def)

lemma plan_reset:
  assumes "reset b = Bool True" and "new_price b = Num p" and "js_lt (Fin 0) p"
    and "js_to_string (js_or (variant_id b) PROTECTION_VARIANT_DYNAMIC) \<noteq> None"
  shows "update_protection_plan b =
           Inr \<lparr>lock_key = js_or (variant_id b) PROTECTION_VARIANT_DYNAMIC,
                 target = js_or (variant_id b) PROTECTION_VARIANT_DYNAMIC,
                 price = p, job_note = ResetNote p\<rparr>"
  using assms js_lt_not_NaN [of "Fin 0" p]
  by (simp add: update_protection_plan_def js_le_zero_iff)

lemma plan_reset_throws:
  assumes "reset b = Bool True" and "new_price b = Num p" and "js_lt (Fin 0) p"
    and "js_to_string (js_or (variant_id b) PROTECTION_VARIANT_DYNAMIC) = None"
  shows "update_protection_plan b =
           Inl \<lparr>status_code = 500, reply = Failure ''Cannot convert object to primitive value''\<rparr>"
  using assms js_lt_not_NaN [of "Fin 0" p]
  by (simp add: update_protection_plan_def js_le_zero_iff)

text \<open>
  Claim C3. A request with \<open>reset\<close> equal to \<^verbatim>\<open>true\<close> and a valid \<open>new_price\<close> (a number above
  \<open>0\<close>, \<open>9.99\<close> for one) never has a calculation rule applied: whenever the handler
  answers, it has made one call of \<^verbatim>\<open>updateVariantPrice\<close> with exactly that number as the
  price, except when the identifier cannot be written into the log line, where it has
  answered 500 and made no call and taken no lock. The \<open>subtotal\<close> has no part in it:
  replacing it by any value \<open>x\<close>, also by \<open>Undefined\<close> for an absent field, leaves the
  outcome as it is. The handler does answer, with the call made, when the identifier
  can be written and the lock of the variant is free as the request arrives.
\<close>

theorem C3_reset_passes_new_price:
  assumes "reset b = Bool True" and "new_price b = Num p" and "js_lt (Fin 0) p"
  shows "(\<forall>resp w'. update_protection fetchFn (b\<lparr>subtotal := x\<rparr>) w = Some (resp, w') \<longrightarrow>
            (if js_to_string (js_or (variant_id b) PROTECTION_VARIANT_DYNAMIC) = None
             then status_code resp = 500 \<and> w' = w
             else calls w' = calls w @ [(js_or (variant_id b) PROTECTION_VARIANT_DYNAMIC, p)]))
         \<and> (js_to_string (js_or (variant_id b) PROTECTION_VARIANT_DYNAMIC) \<noteq> None
              \<and> \<not> lock_held w (js_or (variant_id b) PROTECTION_VARIANT_DYNAMIC) \<longrightarrow>
              (\<exists>resp w'. update_protection fetchFn (b\<lparr>subtotal := x\<rparr>) w = Some (resp, w')
                 \<and> calls w' = calls w @ [(js_or (variant_id b) PROTECTION_VARIANT_DYNAMIC, p)]))
         \<and> update_protection fetchFn (b\<lparr>subtotal := x\<rparr>) w = update_protection fetchFn b w"
proof -
  let ?id = "js_or (variant_id b) PROTECTION_VARIANT_DYNAMIC"
  let ?j = "\<lparr>lock_key = ?id, target = ?id, price = p, job_note = ResetNote p\<rparr>"
  have same: "update_protection_plan (b\<lparr>subtotal := y\<rparr>) = update_protection_plan b" for y
    using assms(1) by (auto simp: update_protection_plan_def split: jsval.splits)
  have eq: "update_protection fetchFn (b\<lparr>subtotal := x\<rparr>) w = update_protection fetchFn b w"
    by (simp add: update_protection_def same)
  show ?thesis
  proof (cases "js_to_string ?id = None")
    case True
    have "update_protection_plan b
            = Inl \<lparr>status_code = 500, reply = Failure ''Cannot convert object to primitive value''\<rparr>"
      using assms True by (rule plan_reset_throws)
    then have "update_protection fetchFn b w
            = Some (\<lparr>status_code = 500,
                     reply = Failure ''Cannot convert object to primitive value''\<rparr>, w)"
      by (rule update_protection_rejected)
    then show ?thesis
      using True eq by simp
  next
    case False
    have plan: "update_protection_plan b = Inr ?j"
      using assms False by (rule plan_reset)
    have "calls w' = calls w @ [(?id, p)]"
      if "update_protection fetchFn b w = Some (resp, w')" for resp w'
      using update_protection_calls [OF plan that] by simp
    moreover have "\<exists>resp w'. update_protection fetchFn b w = Some (resp, w')
                     \<and> calls w' = calls w @ [(?id, p)]"
      if "\<not> lock_held w ?id"
      using update_protection_free [OF plan, of w fetchFn] that by simp
    ultimately show ?thesis
      using False eq by auto
  qed
qed

theorem C3_reset_passes_new_price_witness:
  "js_lt (Fin 0) (literal (999 / 100))
   \<and> js_to_string (js_or Undefined PROTECTION_VARIANT_DYNAMIC) \<noteq> None
   \<and> \<not> lock_held quiet (js_or Undefined PROTECTION_VARIANT_DYNAMIC)
   \<and> (\<exists>resp w'. update_protection remote_accepts
          \<lparr>subtotal = Str ''none'', reset = Bool True, new_price = Num (literal (999 / 100)),
            variant_id = Undefined\<rparr> quiet = Some (resp, w')
        \<and> calls w' = [(PROTECTION_VARIANT_DYNAMIC, literal (999 / 100))])
   \<and> js_to_string (js_or (Obj 0 None) PROTECTION_VARIANT_DYNAMIC) = None
   \<and> update_protection remote_accepts
          \<lparr>subtotal = Undefined, reset = Bool True, new_price = Num (literal (999 / 100)),
            variant_id = Obj 0 None\<rparr> quiet
       = Some (\<lparr>status_code = 500,
                reply = Failure ''Cannot convert object to primitive value''\<rparr>, quiet)"
proof -
  let ?b = "\<lparr>subtotal = Undefined, reset = Bool True, new_price = Num (literal (999 / 100)),
             variant_id = Undefined\<rparr>"
  let ?c = "\<lparr>subtotal = Undefined, reset = Bool True, new_price = Num (literal (999 / 100)),
             variant_id = Obj 0 None\<rparr>"
  have pos: "js_lt (Fin 0) (literal (999 / 100))"
    unfolding literal_def by code_simp
  have r: "reset ?b = Bool True" and n: "new_price ?b = Num (literal (999 / 100))"
    and r': "reset ?c = Bool True" and n': "new_price ?c = Num (literal (999 / 100))"
    by simp_all
  have prints: "js_to_string (js_or Undefined PROTECTION_VARIANT_DYNAMIC) \<noteq> None"
    by (simp add: js_or_def default_prints)
  have throws: "js_to_string (js_or (Obj 0 None) PROTECTION_VARIANT_DYNAMIC) = None"
    by (simp add: js_or_def)
  have throws': "js_to_string (js_or (variant_id ?c) PROTECTION_VARIANT_DYNAMIC) = None"
    by (simp add: js_or_def)
  note t = C3_reset_passes_new_price
    [where b = ?b and p = "literal (999 / 100)" and fetchFn = remote_accepts
       and x = "Str ''none''" and w = quiet, OF r n pos]
  have "\<exists>resp w'. update_protection remote_accepts
          \<lparr>subtotal = Str ''none'', reset = Bool True, new_price = Num (literal (999 / 100)),
            variant_id = Undefined\<rparr> quiet = Some (resp, w')
        \<and> calls w' = [(PROTECTION_VARIANT_DYNAMIC, literal (999 / 100))]"
    using t [THEN conjunct2, THEN conjunct1] prints
    by (simp add: quiet_free quiet_calls js_or_def)
  moreover have "update_protection remote_accepts ?c quiet
       = Some (\<lparr>status_code = 500,
                reply = Failure ''Cannot convert object to primitive value''\<rparr>, quiet)"
    using plan_reset_throws [OF r' n' pos throws'] by (rule update_protection_rejected)
  ultimately show ?thesis
    using pos prints throws by (simp add: quiet_free js_or_def)
qed

section \<open>Rejected requests\<close>

lemma plan_invalid_new_price:
  assumes "reset b = Bool True" and "\<forall>n. new_price b = Num n \<longrightarrow> n = NaN \<or> js_le n (Fin 0)"
  shows "update_protection_plan b = Inl (bad_request ''Invalid new_price for reset'')"
  using assms by (simp add: update_protection_plan_def split: jsval.splits)

lemma plan_invalid_subtotal:
  assumes "reset b \<noteq> Bool True" and "\<forall>n. subtotal b = Num n \<longrightarrow> n = NaN \<or> js_lt n (Fin 0)"
  shows "update_protection_plan b = Inl (bad_request ''subtotal must be a positive number (USD)'')"
  using assms by (simp add: update_protection_plan_def split: jsval.splits)

text \<open>
  Claim C5. A request that fails validation is answered with status 400 and a body
  \<^verbatim>\<open>{success: false, error}\<close>, and the state of the process is the one before the
  request: no call of \<^verbatim>\<open>updateVariantPrice\<close> is made and no lock is taken. The request
  fails validation when \<open>reset\<close> is \<^verbatim>\<open>true\<close> and \<open>new_price\<close> is absent, not a number,
  \<^verbatim>\<open>NaN\<close> or at most \<open>0\<close>, or when \<open>reset\<close> is falsy and \<open>subtotal\<close> is absent, not a
  number, \<^verbatim>\<open>NaN\<close> or below \<open>0\<close>. This holds whatever the remote would do and whether
  or not a lock is held.
\<close>

theorem C5_invalid_input_no_remote_call:
  assumes "(reset b = Bool True \<and> (\<forall>n. new_price b = Num n \<longrightarrow> n = NaN \<or> js_le n (Fin 0)))
         \<or> (\<not> truthy (reset b) \<and> (\<forall>n. subtotal b = Num n \<longrightarrow> n = NaN \<or> js_lt n (Fin 0)))"
  shows "\<exists>msg. update_protection fetchFn b w = Some (\<lparr>status_code = 400, reply = Failure msg\<rparr>, w)"
  using assms
proof
  assume "reset b = Bool True \<and> (\<forall>n. new_price b = Num n \<longrightarrow> n = NaN \<or> js_le n (Fin 0))"
  then have "update_protection_plan b = Inl (bad_request ''Invalid new_price for reset'')"
    by (intro plan_invalid_new_price) simp_all
  then show ?thesis
    by (simp add: update_protection_rejected bad_request_def)
next
  assume "\<not> truthy (reset b) \<and> (\<forall>n. subtotal b = Num n \<longrightarrow> n = NaN \<or> js_lt n (Fin 0))"
  then have "update_protection_plan b
               = Inl (bad_request ''subtotal must be a positive number (USD)'')"
    by (intro plan_invalid_subtotal falsy_not_true) simp_all
  then show ?thesis
    by (simp add: update_protection_rejected bad_request_def)
qed

theorem C5_invalid_input_no_remote_call_witness:
  "(\<exists>msg. update_protection remote_accepts
      \<lparr>subtotal = Num (Fin 50), reset = Bool True, new_price = Str ''abc'',
        variant_id = Undefined\<rparr> quiet = Some (\<lparr>status_code = 400, reply = Failure msg\<rparr>, quiet))
   \<and> (\<exists>msg. update_protection remote_accepts
      \<lparr>subtotal = Num (Fin (- 1)), reset = Bool False, new_price = Undefined,
        variant_id = Undefined\<rparr> quiet = Some (\<lparr>status_code = 400, reply = Failure msg\<rparr>, quiet))"
  using
    C5_invalid_input_no_remote_call
      [of "\<lparr>subtotal = Num (Fin 50), reset = Bool True, new_price = Str ''abc'',
             variant_id = Undefined\<rparr>" remote_accepts quiet]
    C5_invalid_input_no_remote_call
      [of "\<lparr>subtotal = Num (Fin (- 1)), reset = Bool False, new_price = Undefined,
             variant_id = Undefined\<rparr>" remote_accepts quiet]
  by simp

section \<open>Only the boolean true resets\<close>

lemma plan_ignores_reset_fields:
  assumes "reset b \<noteq> Bool True"
  shows "update_protection_plan b
           = update_protection_plan (b\<lparr>reset := Undefined, new_price := x, variant_id := v\<rparr>)"
  using assms by (simp add: update_protection_plan_def)

text \<open>
  Claim C10. Only the boolean \<^verbatim>\<open>true\<close> selects the reset branch. With any other value
  of \<open>reset\<close>, truthy ones such as \<open>1\<close> or \<^verbatim>\<open>"true"\<close> among them, the handler does what it
  does for the same request without \<open>reset\<close> and with any other \<open>new_price\<close>; the
  validation of \<open>subtotal\<close> applies; and the handler never goes on with a reset job.
\<close>

theorem C10_reset_only_on_true:
  assumes "reset b \<noteq> Bool True"
  shows "update_protection fetchFn b w
           = update_protection fetchFn (b\<lparr>reset := Undefined, new_price := x\<rparr>) w
         \<and> ((\<forall>n. subtotal b = Num n \<longrightarrow> n = NaN \<or> js_lt n (Fin 0)) \<longrightarrow>
              update_protection fetchFn b w
                = Some (bad_request ''subtotal must be a positive number (USD)'', w))
         \<and> (\<forall>j p. update_protection_plan b = Inr j \<longrightarrow> job_note j \<noteq> ResetNote p)"
proof -
  have "update_protection_plan b
          = update_protection_plan (b\<lparr>reset := Undefined, new_price := x\<rparr>)"
    using assms by (simp add: update_protection_plan_def)
  then have "update_protection fetchFn b w
           = update_protection fetchFn (b\<lparr>reset := Undefined, new_price := x\<rparr>) w"
    by (simp add: update_protection_def)
  moreover have "update_protection fetchFn b w
                = Some (bad_request ''subtotal must be a positive number (USD)'', w)"
    if "\<forall>n. subtotal b = Num n \<longrightarrow> n = NaN \<or> js_lt n (Fin 0)"
    using plan_invalid_subtotal [OF assms that] by (simp add: update_protection_rejected)
  moreover have "job_note j \<noteq> ResetNote p" if "update_protection_plan b = Inr j" for j p
    using that assms
    by (auto simp: update_protection_plan_def Let_def split: jsval.splits if_splits)
  ultimately show ?thesis by blast
qed

theorem C10_reset_only_on_true_witness:
  "Num (Fin 1) \<noteq> Bool True \<and> truthy (Num (Fin 1)) \<and> Str ''true'' \<noteq> Bool True \<and> truthy (Str ''true'')
   \<and> update_protection remote_accepts
        \<lparr>subtotal = Undefined, reset = Num (Fin 1), new_price = Num (Fin 5),
          variant_id = Undefined\<rparr> quiet
      = Some (bad_request ''subtotal must be a positive number (USD)'', quiet)
   \<and> update_protection remote_accepts
        \<lparr>subtotal = Num (Fin 50), reset = Str ''true'', new_price = Num (Fin 5),
          variant_id = Undefined\<rparr> quiet
      = update_protection remote_accepts
        \<lparr>subtotal = Num (Fin 50), reset = Undefined, new_price = Undefined,
          variant_id = Undefined\<rparr> quiet"
  using
    C10_reset_only_on_true
      [of "\<lparr>subtotal = Undefined, reset = Num (Fin 1), new_price = Num (Fin 5),
             variant_id = Undefined\<rparr>" remote_accepts quiet Undefined]
    C10_reset_only_on_true
      [of "\<lparr>subtotal = Num (Fin 50), reset = Str ''true'', new_price = Num (Fin 5),
             variant_id = Undefined\<rparr>" remote_accepts quiet Undefined]
  by auto

section \<open>Which variant is written\<close>

lemma plan_target:
  assumes "update_protection_plan b = Inr j"
  shows "target j = (if reset b = Bool True \<and> truthy (variant_id b) then variant_id b
                     else PROTECTION_VARIANT_DYNAMIC)
         \<and> lock_key j = target j"
  using assms
  by (auto simp: update_protection_plan_def js_or_def Let_def split: jsval.splits if_splits)

text \<open>
  Every identifier that the handler passes on can be written into the URL: the
  configured constant is a string, and in reset mode the log line has written the
  identifier before.
\<close>

lemma plan_target_prints:
  assumes "update_protection_plan b = Inr j"
  shows "js_to_string (target j) \<noteq> None"
  using assms
  by (auto simp: update_protection_plan_def PROTECTION_VARIANT_DYNAMIC_def Let_def
      split: jsval.splits if_splits)

text \<open>
  Claim C6 says that in every mode the remote update goes to the \<open>variant_id\<close> of the
  request when one is supplied. In calculation mode it does not: a request with
  \<open>subtotal\<close> 50 and \<open>variant_id\<close> \<^verbatim>\<open>"123"\<close> updates the configured variant.
\<close>

theorem C6_variant_id_counterexample:
  "map_option (calls \<circ> snd)
     (update_protection remote_accepts
        \<lparr>subtotal = Num (Fin 50), reset = Undefined, new_price = Undefined,
          variant_id = Str ''123''\<rparr> quiet)
     = Some [(PROTECTION_VARIANT_DYNAMIC, literal (217 / 100))]
   \<and> PROTECTION_VARIANT_DYNAMIC \<noteq> Str ''123''"
proof -
  have "update_protection_plan
          \<lparr>subtotal = Num (Fin 50), reset = Undefined, new_price = Undefined,
            variant_id = Str ''123''\<rparr>
        = Inr \<lparr>lock_key = PROTECTION_VARIANT_DYNAMIC, target = PROTECTION_VARIANT_DYNAMIC,
               price = literal (217 / 100), job_note = FixedNote (toFixed2 (Fin 50))\<rparr>"
    by (rule plan_fixed) simp_all
  from update_protection_free [OF this, of quiet remote_accepts]
  show ?thesis
    by (simp add: quiet_free quiet_calls PROTECTION_VARIANT_DYNAMIC_def)
qed

text \<open>
  Claim C6, amended. Whenever the handler answers, it has either changed nothing, or
  made one call of \<^verbatim>\<open>updateVariantPrice\<close>, whose variant is the \<open>variant_id\<close> of the request
  when \<open>reset\<close> is \<^verbatim>\<open>true\<close> and \<open>variant_id\<close> is truthy, and the configured constant in
  every other case: the fixed-price and the dynamic branch always write the
  configured variant.
\<close>

theorem C6_variant_by_mode:
  assumes "update_protection fetchFn b w = Some (resp, w')"
  shows "w' = w
         \<or> (\<exists>p. calls w' = calls w @
                 [(if reset b = Bool True \<and> truthy (variant_id b) then variant_id b
                   else PROTECTION_VARIANT_DYNAMIC, p)])"
  using update_protection_cases [OF assms] plan_target [of b] by auto

theorem C6_variant_by_mode_witness:
  "update_protection remote_accepts
      \<lparr>subtotal = Undefined, reset = Bool True, new_price = Num (Fin 5),
        variant_id = Str ''123''\<rparr> quiet
     = Some (\<lparr>status_code = 200, reply = Success (Str ''123'') (Str ''stored'') (ResetNote (Fin 5))\<rparr>,
             quiet\<lparr>calls := [(Str ''123'', Fin 5)]\<rparr>)
   \<and> (quiet\<lparr>calls := [(Str ''123'', Fin 5)]\<rparr> = quiet
       \<or> (\<exists>p. calls (quiet\<lparr>calls := [(Str ''123'', Fin 5)]\<rparr>) = calls quiet @ [(Str ''123'', p)]))"
proof -
  have plan: "update_protection_plan
          \<lparr>subtotal = Undefined, reset = Bool True, new_price = Num (Fin 5),
            variant_id = Str ''123''\<rparr>
        = Inr \<lparr>lock_key = Str ''123'', target = Str ''123'', price = Fin 5,
               job_note = ResetNote (Fin 5)\<rparr>"
    by (simp add: update_protection_plan_def js_le_def js_or_def)
  have run: "update_protection remote_accepts
      \<lparr>subtotal = Undefined, reset = Bool True, new_price = Num (Fin 5),
        variant_id = Str ''123''\<rparr> quiet
     = Some (\<lparr>status_code = 200, reply = Success (Str ''123'') (Str ''stored'') (ResetNote (Fin 5))\<rparr>,
             quiet\<lparr>calls := [(Str ''123'', Fin 5)]\<rparr>)"
    using update_protection_free [OF plan, of quiet remote_accepts]
    by (simp add: lock_held_def quiet_def remote_accepts_def updateVariantPrice_result_def
        respond_def)
  from C6_variant_by_mode [OF run] run show ?thesis by simp
qed


section \<open>What validation lets through\<close>

lemma respond_code: "status_code (respond j r) = 200 \<or> status_code (respond j r) = 500"
proof (cases r)
  case (Inl e)
  then show ?thesis by (cases e) (simp add: respond_def)
next
  case (Inr v)
  then show ?thesis by (cases v) (simp_all add: respond_def)
qed

lemma plan_Inl_cases:
  assumes "update_protection_plan b = Inl resp"
  shows "(\<exists>msg. resp = bad_request msg) \<or> status_code resp = 500"
  using assms
  by (auto simp: update_protection_plan_def Let_def split: jsval.splits if_splits)

lemma plan_rejects_reset:
  assumes "reset b = Bool True"
  shows "(\<exists>msg. update_protection_plan b = Inl (bad_request msg))
           \<longleftrightarrow> \<not> (\<exists>n. new_price b = Num n \<and> js_lt (Fin 0) n)"
proof
  assume "\<exists>msg. update_protection_plan b = Inl (bad_request msg)"
  then obtain msg where m: "update_protection_plan b = Inl (bad_request msg)" by blast
  show "\<not> (\<exists>n. new_price b = Num n \<and> js_lt (Fin 0) n)"
  proof
    assume "\<exists>n. new_price b = Num n \<and> js_lt (Fin 0) n"
    then obtain n where n: "new_price b = Num n" "js_lt (Fin 0) n" by blast
    show False
    proof (cases "js_to_string (js_or (variant_id b) PROTECTION_VARIANT_DYNAMIC) = None")
      case True
      from plan_reset_throws [OF assms n True] m show False
        by (simp add: bad_request_def)
    next
      case False
      from plan_reset [OF assms n False] m show False by simp
    qed
  qed
next
  assume "\<not> (\<exists>n. new_price b = Num n \<and> js_lt (Fin 0) n)"
  then have "\<forall>n. new_price b = Num n \<longrightarrow> n = NaN \<or> js_le n (Fin 0)"
    using js_le_zero_iff by blast
  with assms have "update_protection_plan b = Inl (bad_request ''Invalid new_price for reset'')"
    by (rule plan_invalid_new_price)
  then show "\<exists>msg. update_protection_plan b = Inl (bad_request msg)" by blast
qed

lemma plan_rejects_subtotal:
  assumes "reset b \<noteq> Bool True"
  shows "(\<exists>msg. update_protection_plan b = Inl (bad_request msg))
           \<longleftrightarrow> \<not> (\<exists>n. subtotal b = Num n \<and> js_le (Fin 0) n)"
proof
  assume "\<exists>msg. update_protection_plan b = Inl (bad_request msg)"
  then obtain msg where m: "update_protection_plan b = Inl (bad_request msg)" by blast
  show "\<not> (\<exists>n. subtotal b = Num n \<and> js_le (Fin 0) n)"
  proof
    assume "\<exists>n. subtotal b = Num n \<and> js_le (Fin 0) n"
    then obtain n where n: "subtotal b = Num n" "js_le (Fin 0) n" by blast
    then have "n \<noteq> NaN" "\<not> js_lt n (Fin 0)"
      by (auto simp: js_le_def js_lt_zero_iff)
    then have "\<exists>j. update_protection_plan b = Inr j"
      using assms n by (simp add: update_protection_plan_def Let_def)
    with m show False by simp
  qed
next
  assume "\<not> (\<exists>n. subtotal b = Num n \<and> js_le (Fin 0) n)"
  then have "\<forall>n. subtotal b = Num n \<longrightarrow> n = NaN \<or> js_lt n (Fin 0)"
    using js_lt_zero_iff by blast
  with assms
  have "update_protection_plan b = Inl (bad_request ''subtotal must be a positive number (USD)'')"
    by (rule plan_invalid_subtotal)
  then show "\<exists>msg. update_protection_plan b = Inl (bad_request msg)" by blast
qed

lemma answers_400_iff:
  "(\<exists>resp w'. update_protection fetchFn b w = Some (resp, w') \<and> status_code resp = 400)
     \<longleftrightarrow> (\<exists>msg. update_protection_plan b = Inl (bad_request msg))"
proof
  assume "\<exists>resp w'. update_protection fetchFn b w = Some (resp, w') \<and> status_code resp = 400"
  then obtain resp w' where r: "update_protection fetchFn b w = Some (resp, w')"
    and c: "status_code resp = 400" by blast
  from update_protection_cases [OF r]
  show "\<exists>msg. update_protection_plan b = Inl (bad_request msg)"
  proof
    assume "update_protection_plan b = Inl resp \<and> w' = w"
    then have p: "update_protection_plan b = Inl resp" by simp
    from plan_Inl_cases [OF p] c have "\<exists>msg. resp = bad_request msg" by simp
    with p show ?thesis by blast
  next
    assume "\<exists>j. update_protection_plan b = Inr j \<and> \<not> lock_held w (lock_key j)
               \<and> resp = respond j (updateVariantPrice_result
                           (fetchFn \<lparr>url_variant = target j, body_price = toFixed2 (price j)\<rparr>))
               \<and> w' = w\<lparr>locks := (locks w)(lock_key j := None),
                         calls := calls w @ [(target j, price j)]\<rparr>"
    then obtain j r where "resp = respond j r" by blast
    with c respond_code [of j r] show ?thesis by simp
  qed
next
  assume "\<exists>msg. update_protection_plan b = Inl (bad_request msg)"
  then obtain msg where "update_protection_plan b = Inl (bad_request msg)" by blast
  then have "update_protection fetchFn b w = Some (bad_request msg, w)"
    by (rule update_protection_rejected)
  then show "\<exists>resp w'. update_protection fetchFn b w = Some (resp, w') \<and> status_code resp = 400"
    by (simp add: bad_request_def)
qed

lemma plan_infinite_subtotal:
  assumes "reset b \<noteq> Bool True" and "subtotal b = Num PInf"
  shows "update_protection_plan b =
           Inr \<lparr>lock_key = PROTECTION_VARIANT_DYNAMIC, target = PROTECTION_VARIANT_DYNAMIC,
                 price = PInf, job_note = DynamicNote (Verbatim PInf)\<rparr>"
  using assms
  by (simp add: update_protection_plan_def threshold_value percent_value increment_value
      toFixed2_def Number_def)

text \<open>
  Claim C4 says that validation enforces finiteness on both paths. It does not: with
  \<open>new_price\<close> \<open>+\<infinity>\<close> and \<open>reset\<close> \<^verbatim>\<open>true\<close>, and with \<open>subtotal\<close> \<open>+\<infinity>\<close> and no \<open>reset\<close>, the
  handler calls \<^verbatim>\<open>updateVariantPrice\<close> with the price \<open>+\<infinity>\<close> and answers 200 when the
  remote accepts.
\<close>

theorem C4_infinity_counterexample:
  "map_option (status_code \<circ> fst)
     (update_protection remote_accepts
        \<lparr>subtotal = Undefined, reset = Bool True, new_price = Num PInf,
          variant_id = Undefined\<rparr> quiet) = Some 200
   \<and> map_option (calls \<circ> snd)
     (update_protection remote_accepts
        \<lparr>subtotal = Undefined, reset = Bool True, new_price = Num PInf,
          variant_id = Undefined\<rparr> quiet) = Some [(PROTECTION_VARIANT_DYNAMIC, PInf)]
   \<and> map_option (status_code \<circ> fst)
     (update_protection remote_accepts
        \<lparr>subtotal = Num PInf, reset = Undefined, new_price = Undefined,
          variant_id = Undefined\<rparr> quiet) = Some 200
   \<and> map_option (calls \<circ> snd)
     (update_protection remote_accepts
        \<lparr>subtotal = Num PInf, reset = Undefined, new_price = Undefined,
          variant_id = Undefined\<rparr> quiet) = Some [(PROTECTION_VARIANT_DYNAMIC, PInf)]"
proof -
  have "update_protection_plan
          \<lparr>subtotal = Undefined, reset = Bool True, new_price = Num PInf,
            variant_id = Undefined\<rparr>
        = Inr \<lparr>lock_key = PROTECTION_VARIANT_DYNAMIC, target = PROTECTION_VARIANT_DYNAMIC,
               price = PInf, job_note = ResetNote PInf\<rparr>"
    using plan_reset
      [of "\<lparr>subtotal = Undefined, reset = Bool True, new_price = Num PInf,
             variant_id = Undefined\<rparr>" PInf]
    using default_prints by (simp add: js_or_def)
  from update_protection_free [OF this, of quiet remote_accepts]
  have a: "update_protection remote_accepts
        \<lparr>subtotal = Undefined, reset = Bool True, new_price = Num PInf,
          variant_id = Undefined\<rparr> quiet
      = Some (\<lparr>status_code = 200,
               reply = Success PROTECTION_VARIANT_DYNAMIC (Str ''stored'') (ResetNote PInf)\<rparr>,
             quiet\<lparr>calls := [(PROTECTION_VARIANT_DYNAMIC, PInf)]\<rparr>)"
    by (simp add: lock_held_def quiet_def remote_accepts_def updateVariantPrice_result_def
        respond_def)
  have "update_protection_plan
          \<lparr>subtotal = Num PInf, reset = Undefined, new_price = Undefined,
            variant_id = Undefined\<rparr>
        = Inr \<lparr>lock_key = PROTECTION_VARIANT_DYNAMIC, target = PROTECTION_VARIANT_DYNAMIC,
               price = PInf, job_note = DynamicNote (Verbatim PInf)\<rparr>"
    by (rule plan_infinite_subtotal) simp_all
  from update_protection_free [OF this, of quiet remote_accepts]
  have b: "update_protection remote_accepts
        \<lparr>subtotal = Num PInf, reset = Undefined, new_price = Undefined,
          variant_id = Undefined\<rparr> quiet
      = Some (\<lparr>status_code = 200,
               reply = Success PROTECTION_VARIANT_DYNAMIC (Str ''stored'')
                         (DynamicNote (Verbatim PInf))\<rparr>,
             quiet\<lparr>calls := [(PROTECTION_VARIANT_DYNAMIC, PInf)]\<rparr>)"
    by (simp add: lock_held_def quiet_def remote_accepts_def updateVariantPrice_result_def
        respond_def)
  show ?thesis
    by (simp add: a b)
qed

text \<open>
  Claim C4, amended. With \<open>reset\<close> \<^verbatim>\<open>true\<close> the handler answers 400 exactly when \<open>new_price\<close>
  is not a number above \<open>0\<close>; with \<open>reset\<close> falsy it answers 400 exactly when \<open>subtotal\<close>
  is not a number that is at least \<open>0\<close>. \<^verbatim>\<open>NaN\<close> is neither above nor at least \<open>0\<close>,
  and \<open>+\<infinity>\<close> is both: the checks are on the type, on \<^verbatim>\<open>NaN\<close> and on the sign, not on
  finiteness.
\<close>

theorem C4_validation_admits_infinity:
  "(reset b = Bool True \<longrightarrow>
      ((\<exists>resp w'. update_protection fetchFn b w = Some (resp, w') \<and> status_code resp = 400)
         \<longleftrightarrow> \<not> (\<exists>n. new_price b = Num n \<and> js_lt (Fin 0) n)))
   \<and> (\<not> truthy (reset b) \<longrightarrow>
      ((\<exists>resp w'. update_protection fetchFn b w = Some (resp, w') \<and> status_code resp = 400)
         \<longleftrightarrow> \<not> (\<exists>n. subtotal b = Num n \<and> js_le (Fin 0) n)))
   \<and> js_lt (Fin 0) PInf \<and> js_le (Fin 0) PInf"
proof (intro conjI impI)
  assume "reset b = Bool True"
  then show "(\<exists>resp w'. update_protection fetchFn b w = Some (resp, w') \<and> status_code resp = 400)
         \<longleftrightarrow> \<not> (\<exists>n. new_price b = Num n \<and> js_lt (Fin 0) n)"
    unfolding answers_400_iff using plan_rejects_reset [of b] by blast
next
  assume "\<not> truthy (reset b)"
  then have "reset b \<noteq> Bool True" by (rule falsy_not_true)
  then show "(\<exists>resp w'. update_protection fetchFn b w = Some (resp, w') \<and> status_code resp = 400)
         \<longleftrightarrow> \<not> (\<exists>n. subtotal b = Num n \<and> js_le (Fin 0) n)"
    unfolding answers_400_iff using plan_rejects_subtotal [of b] by blast
next
  show "js_lt (Fin 0) PInf" by simp
next
  show "js_le (Fin 0) PInf" by (simp add: js_le_def)
qed

theorem C4_validation_admits_infinity_witness:
  "((\<exists>resp w'. update_protection remote_accepts
        \<lparr>subtotal = Undefined, reset = Bool True, new_price = Num NInf,
          variant_id = Undefined\<rparr> quiet = Some (resp, w') \<and> status_code resp = 400))
   \<and> \<not> (\<exists>resp w'. update_protection remote_accepts
        \<lparr>subtotal = Num PInf, reset = Bool False, new_price = Undefined,
          variant_id = Undefined\<rparr> quiet = Some (resp, w') \<and> status_code resp = 400)"
  using
    C4_validation_admits_infinity
      [of "\<lparr>subtotal = Undefined, reset = Bool True, new_price = Num NInf,
             variant_id = Undefined\<rparr>" remote_accepts quiet]
    C4_validation_admits_infinity
      [of "\<lparr>subtotal = Num PInf, reset = Bool False, new_price = Undefined,
             variant_id = Undefined\<rparr>" remote_accepts quiet]
  by (simp add: js_le_def)

section \<open>A remote that refuses\<close>

lemma refused_result:
  assumes "\<not> res_ok res" and "res_text res = Inr body"
  shows "updateVariantPrice_result (Resolves res) =
           Inl (Error (''Shopify Admin API error: '' @ show_nat (res_status res) @ '' ''
                       @ res_statusText res @ '' - '' @ body)
                  (Some (res_status res)))"
  using assms by (simp add: updateVariantPrice_result_def)

lemma show_nat_422: "show_nat 422 = ''422''"
  by (simp add: show_nat.simps)

text \<open>
  Claim C9. A request passes validation and finds the lock free; the remote answers
  its PUT with a status that is not a success (422 for one) and a readable body. Then
  the endpoint answers 500 with \<^verbatim>\<open>{success: false, error}\<close>, where the error text contains
  the decimal status code of the remote and the body of its answer, and the error that
  \<^verbatim>\<open>updateVariantPrice\<close> throws has this text as message and the remote status as its
  \<^verbatim>\<open>status\<close> property.
\<close>

theorem C9_remote_error_answers_500:
  assumes "update_protection_plan b = Inr j" and "\<not> lock_held w (lock_key j)"
    and "fetchFn \<lparr>url_variant = target j, body_price = toFixed2 (price j)\<rparr> = Resolves res"
    and "\<not> res_ok res" and "res_text res = Inr body"
  shows "\<exists>msg w'.
           update_protection fetchFn b w = Some (\<lparr>status_code = 500, reply = Failure msg\<rparr>, w')
           \<and> sublist (show_nat (res_status res)) msg
           \<and> sublist body msg
           \<and> fst (updateVariantPrice fetchFn (target j) (price j) w)
               = Inl (Error msg (Some (res_status res)))"
proof -
  let ?pre = "''Shopify Admin API error: ''"
  let ?msg = "?pre @ show_nat (res_status res) @ '' '' @ res_statusText res @ '' - '' @ body"
  have thrown: "updateVariantPrice_result (Resolves res) = Inl (Error ?msg (Some (res_status res)))"
    using assms(4,5) by (rule refused_result)
  have "update_protection fetchFn b w =
          Some (\<lparr>status_code = 500, reply = Failure ?msg\<rparr>,
                w\<lparr>locks := (locks w)(lock_key j := None),
                  calls := calls w @ [(target j, price j)]\<rparr>)"
    using update_protection_free [OF assms(1,2), of fetchFn] assms(3) thrown
    by (simp add: respond_def)
  moreover have "sublist (show_nat (res_status res)) ?msg"
    by (rule sublist_appendI)
  moreover have "sublist body ?msg"
    unfolding sublist_def
    by (rule exI [of _ "?pre @ show_nat (res_status res) @ '' '' @ res_statusText res @ '' - ''"],
        rule exI [of _ "[]"]) simp
  moreover have "fst (updateVariantPrice fetchFn (target j) (price j) w)
               = Inl (Error ?msg (Some (res_status res)))"
    using assms(3) thrown by (simp add: updateVariantPrice_def)
  ultimately show ?thesis by blast
qed

theorem C9_remote_error_answers_500_witness:
  "update_protection remote_refuses
      \<lparr>subtotal = Num (Fin 50), reset = Undefined, new_price = Undefined,
        variant_id = Undefined\<rparr> quiet
     = Some (\<lparr>status_code = 500,
              reply = Failure ''Shopify Admin API error: 422 Unprocessable Entity - {}''\<rparr>,
             quiet\<lparr>calls := [(PROTECTION_VARIANT_DYNAMIC, literal (217 / 100))]\<rparr>)
   \<and> (\<exists>msg w'. update_protection remote_refuses
      \<lparr>subtotal = Num (Fin 50), reset = Undefined, new_price = Undefined,
        variant_id = Undefined\<rparr> quiet = Some (\<lparr>status_code = 500, reply = Failure msg\<rparr>, w')
      \<and> sublist ''422'' msg)"
proof -
  let ?b = "\<lparr>subtotal = Num (Fin 50), reset = Undefined, new_price = Undefined,
             variant_id = Undefined\<rparr>"
  let ?j = "\<lparr>lock_key = PROTECTION_VARIANT_DYNAMIC, target = PROTECTION_VARIANT_DYNAMIC,
              price = literal (217 / 100), job_note = FixedNote (toFixed2 (Fin 50))\<rparr>"
  let ?res = "\<lparr>res_ok = False, res_status = 422, res_statusText = ''Unprocessable Entity'',
               res_text = Inr ''{}'', res_json = Inl (Error ''body used already'' None)\<rparr>"
  have plan: "update_protection_plan ?b = Inr ?j"
    by (rule plan_fixed) simp_all
  have free: "\<not> lock_held quiet (lock_key ?j)"
    by (rule quiet_free)
  have remote: "remote_refuses \<lparr>url_variant = target ?j, body_price = toFixed2 (price ?j)\<rparr>
                  = Resolves ?res"
    by (simp add: remote_refuses_def)
  have run: "update_protection remote_refuses ?b quiet
     = Some (\<lparr>status_code = 500,
              reply = Failure ''Shopify Admin API error: 422 Unprocessable Entity - {}''\<rparr>,
             quiet\<lparr>calls := [(PROTECTION_VARIANT_DYNAMIC, literal (217 / 100))]\<rparr>)"
    using update_protection_free [OF plan free, of remote_refuses]
    by (simp add: remote_refuses_def updateVariantPrice_result_def respond_def show_nat_422
        quiet_def)
  from C9_remote_error_answers_500 [of ?b ?j quiet remote_refuses ?res "''{}''"]
    plan free remote
  have "\<exists>msg w'. update_protection remote_refuses ?b quiet
          = Some (\<lparr>status_code = 500, reply = Failure msg\<rparr>, w') \<and> sublist ''422'' msg"
    by (simp add: show_nat_422) blast
  with run show ?thesis by blast
qed

section \<open>The dynamic price\<close>

lemma plan_dynamic:
  assumes "reset b \<noteq> Bool True" and "subtotal b = Num s" and "js_le (Fin 100) s"
  shows "update_protection_plan b =
           Inr \<lparr>lock_key = PROTECTION_VARIANT_DYNAMIC, target = PROTECTION_VARIANT_DYNAMIC,
                 price = Number (toFixed2 (js_add (js_mul s PROTECTION_PERCENT)
                                              PROTECTION_BASE_INCREMENT)),
                 job_note = DynamicNote (toFixed2 s)\<rparr>"
proof -
  have "s \<noteq> NaN" "\<not> js_lt s (Fin 0)" "\<not> js_lt s (Fin 100)"
    using assms(3) by (cases s; auto simp: js_le_def)+
  then show ?thesis
    using assms(1,2) by (simp add: update_protection_plan_def threshold_value)
qed

lemma toFixed2_half_up:
  assumes "0 \<le> r" and "r < 10 ^ 21"
  shows "Number (toFixed2 (Fin r)) = literal (of_int \<lfloor>r * 100 + 1 / 2\<rfloor> / 100)"
  using assms by (simp add: toFixed2_def Number_def literal_def)

lemma dynamic_price_150:
  "Number (toFixed2 (js_add (js_mul (Fin 150) PROTECTION_PERCENT) PROTECTION_BASE_INCREMENT))
     = literal (451 / 100)"
  unfolding PROTECTION_PERCENT_def PROTECTION_BASE_INCREMENT_def literal_def by code_simp

lemma dynamic_price_100:
  "Number (toFixed2 (js_add (js_mul (Fin 100) PROTECTION_PERCENT) PROTECTION_BASE_INCREMENT))
     = literal (301 / 100)"
  unfolding PROTECTION_PERCENT_def PROTECTION_BASE_INCREMENT_def literal_def by code_simp

lemma dynamic_price_1000:
  "Number (toFixed2 (js_add (js_mul (Fin 1000) PROTECTION_PERCENT) PROTECTION_BASE_INCREMENT))
     = literal (3001 / 100)"
  unfolding PROTECTION_PERCENT_def PROTECTION_BASE_INCREMENT_def literal_def by code_simp

lemma dynamic_price_half_cent:
  "Number (toFixed2 (js_add (js_mul (Fin (201 / 2)) PROTECTION_PERCENT) PROTECTION_BASE_INCREMENT))
     = literal (302 / 100)"
  unfolding PROTECTION_PERCENT_def PROTECTION_BASE_INCREMENT_def literal_def by code_simp

lemma spec_price_half_cent: "spec_dynamic_price (201 / 2) = literal (303 / 100)"
  unfolding spec_dynamic_price_def by simp

lemma literals_differ: "literal (302 / 100) \<noteq> literal (303 / 100)"
  unfolding literal_def by code_simp

text \<open>
  Claim C2 says that for every subtotal \<open>s\<close> of at least 100 the price is
  \<open>0.03 * s + 0.01\<close> rounded half up to two decimal places. For \<open>s = 100.5\<close> that is
  \<open>3.025\<close>, rounded half up \<open>3.03\<close>. The handler computes in doubles: the product and
  the sum come to \<open>3.0249999999999995\<close>, which \<^verbatim>\<open>toFixed(2)\<close> renders as \<^verbatim>\<open>3.02\<close>, and the
  price passed on is \<open>3.02\<close>.
\<close>

theorem C2_half_cent_counterexample:
  "map_option (calls \<circ> snd)
     (update_protection remote_accepts
        \<lparr>subtotal = Num (Fin (201 / 2)), reset = Undefined, new_price = Undefined,
          variant_id = Undefined\<rparr> quiet)
     = Some [(PROTECTION_VARIANT_DYNAMIC, literal (302 / 100))]
   \<and> spec_dynamic_price (201 / 2) = literal (303 / 100)
   \<and> literal (302 / 100) \<noteq> literal (303 / 100)"
proof -
  have "update_protection_plan
          \<lparr>subtotal = Num (Fin (201 / 2)), reset = Undefined, new_price = Undefined,
            variant_id = Undefined\<rparr>
        = Inr \<lparr>lock_key = PROTECTION_VARIANT_DYNAMIC, target = PROTECTION_VARIANT_DYNAMIC,
               price = literal (302 / 100),
               job_note = DynamicNote (toFixed2 (Fin (201 / 2)))\<rparr>"
    using plan_dynamic
      [of "\<lparr>subtotal = Num (Fin (201 / 2)), reset = Undefined, new_price = Undefined,
             variant_id = Undefined\<rparr>" "Fin (201 / 2)"]
    by (simp add: js_le_def dynamic_price_half_cent)
  from update_protection_free [OF this, of quiet remote_accepts]
  have "map_option (calls \<circ> snd)
     (update_protection remote_accepts
        \<lparr>subtotal = Num (Fin (201 / 2)), reset = Undefined, new_price = Undefined,
          variant_id = Undefined\<rparr> quiet)
     = Some [(PROTECTION_VARIANT_DYNAMIC, literal (302 / 100))]"
    by (simp add: quiet_free quiet_calls)
  with spec_price_half_cent literals_differ show ?thesis by blast
qed

text \<open>
  Claim C2, amended. For a request whose \<open>reset\<close> is falsy and whose \<open>subtotal\<close> is a number
  \<open>s\<close> of at least 100, the handler calls \<^verbatim>\<open>updateVariantPrice\<close> once, for the configured
  variant, with the price \<^verbatim>\<open>Number((s * 0.03 + 0.01).toFixed(2))\<close> computed in doubles: the
  product and the sum are each rounded to the nearest double, and when the sum is a
  finite \<open>r\<close> below \<open>10 ^ 21\<close> the price is the double nearest to \<open>r\<close> rounded half up to
  two decimal places. The rounding is applied to the double \<open>r\<close>, not to the exact value
  of \<open>0.03 * s + 0.01\<close>. The subtotals 150, 100 and 1000 yield 4.51, 3.01 and 30.01.
  Whenever the handler answers, this is the call it has made, and it does answer when
  the lock of the variant is free as the request arrives.
\<close>

theorem C2_dynamic_price_in_doubles:
  assumes "\<not> truthy (reset b)" and "subtotal b = Num s" and "js_le (Fin 100) s"
  shows "(\<forall>resp w'. update_protection fetchFn b w = Some (resp, w') \<longrightarrow>
            calls w' = calls w @
                 [(PROTECTION_VARIANT_DYNAMIC,
                   Number (toFixed2 (js_add (js_mul s PROTECTION_PERCENT)
                                       PROTECTION_BASE_INCREMENT)))])
         \<and> (\<not> lock_held w PROTECTION_VARIANT_DYNAMIC \<longrightarrow>
              (\<exists>resp w'. update_protection fetchFn b w = Some (resp, w')))
         \<and> (\<forall>r. js_add (js_mul s PROTECTION_PERCENT) PROTECTION_BASE_INCREMENT = Fin r
                  \<and> 0 \<le> r \<and> r < 10 ^ 21 \<longrightarrow>
                Number (toFixed2 (js_add (js_mul s PROTECTION_PERCENT)
                                    PROTECTION_BASE_INCREMENT))
                  = literal (of_int \<lfloor>r * 100 + 1 / 2\<rfloor> / 100))
         \<and> Number (toFixed2 (js_add (js_mul (Fin 150) PROTECTION_PERCENT)
                               PROTECTION_BASE_INCREMENT)) = literal (451 / 100)
         \<and> Number (toFixed2 (js_add (js_mul (Fin 100) PROTECTION_PERCENT)
                               PROTECTION_BASE_INCREMENT)) = literal (301 / 100)
         \<and> Number (toFixed2 (js_add (js_mul (Fin 1000) PROTECTION_PERCENT)
                               PROTECTION_BASE_INCREMENT)) = literal (3001 / 100)"
proof -
  let ?p = "Number (toFixed2 (js_add (js_mul s PROTECTION_PERCENT) PROTECTION_BASE_INCREMENT))"
  let ?j = "\<lparr>lock_key = PROTECTION_VARIANT_DYNAMIC, target = PROTECTION_VARIANT_DYNAMIC,
              price = ?p, job_note = DynamicNote (toFixed2 s)\<rparr>"
  have plan: "update_protection_plan b = Inr ?j"
    using assms by (intro plan_dynamic falsy_not_true)
  have "calls w' = calls w @ [(PROTECTION_VARIANT_DYNAMIC, ?p)]"
    if "update_protection fetchFn b w = Some (resp, w')" for resp w'
    using update_protection_calls [OF plan that] by simp
  moreover have "\<exists>resp w'. update_protection fetchFn b w = Some (resp, w')"
    if "\<not> lock_held w PROTECTION_VARIANT_DYNAMIC"
    using update_protection_free [OF plan, of w fetchFn] that by simp
  moreover have "\<forall>r. js_add (js_mul s PROTECTION_PERCENT) PROTECTION_BASE_INCREMENT = Fin r
                  \<and> 0 \<le> r \<and> r < 10 ^ 21 \<longrightarrow> ?p = literal (of_int \<lfloor>r * 100 + 1 / 2\<rfloor> / 100)"
    using toFixed2_half_up by auto
  ultimately show ?thesis
    using dynamic_price_150 dynamic_price_100 dynamic_price_1000 by blast
qed

theorem C2_dynamic_price_in_doubles_witness:
  "\<not> truthy Undefined \<and> js_le (Fin 100) (Fin 150)
   \<and> \<not> lock_held quiet PROTECTION_VARIANT_DYNAMIC
   \<and> (\<exists>resp w'. update_protection remote_accepts
          \<lparr>subtotal = Num (Fin 150), reset = Undefined, new_price = Undefined,
            variant_id = Undefined\<rparr> quiet = Some (resp, w')
        \<and> calls w' = [(PROTECTION_VARIANT_DYNAMIC, literal (451 / 100))])"
  using C2_dynamic_price_in_doubles
    [of "\<lparr>subtotal = Num (Fin 150), reset = Undefined, new_price = Undefined,
           variant_id = Undefined\<rparr>" "Fin 150" remote_accepts quiet]
  by (simp add: quiet_free quiet_calls js_le_def dynamic_price_150) blast

section \<open>Mutual exclusion\<close>

lemma consistentI:
  assumes "\<And>i j a c. i < length (tasks s) \<Longrightarrow> j < length (tasks s) \<Longrightarrow> tasks s ! i = Running a
              \<Longrightarrow> tasks s ! j = Running c \<Longrightarrow> lock_key a = lock_key c \<Longrightarrow> i = j"
    and "\<And>k. locks (shared s) k = None \<or> locks (shared s) k = Some True"
    and "\<And>k. locks (shared s) k = Some True
             \<longleftrightarrow> (\<exists>i < length (tasks s). \<exists>a. tasks s ! i = Running a \<and> lock_key a = k)"
    and "\<And>i a. i < length (tasks s) \<Longrightarrow> tasks s ! i = Running a \<or> tasks s ! i = Waiting a
              \<Longrightarrow> lock_key a = target a"
  shows "consistent s"
  unfolding consistent_def
proof (intro conjI allI impI)
  fix i j a c
  assume "i < length (tasks s)" "j < length (tasks s)"
    "tasks s ! i = Running a \<and> tasks s ! j = Running c \<and> lock_key a = lock_key c"
  then show "i = j" using assms(1) [of i j a c] by simp
next
  fix k show "locks (shared s) k = None \<or> locks (shared s) k = Some True" by (rule assms(2))
next
  fix k show "locks (shared s) k = Some True
             \<longleftrightarrow> (\<exists>i < length (tasks s). \<exists>a. tasks s ! i = Running a \<and> lock_key a = k)"
    by (rule assms(3))
next
  fix i a
  assume "i < length (tasks s)" "tasks s ! i = Running a \<or> tasks s ! i = Waiting a"
  then show "lock_key a = target a" by (rule assms(4))
qed

lemma consistent_mutex:
  "consistent s \<Longrightarrow> i < length (tasks s) \<Longrightarrow> j < length (tasks s) \<Longrightarrow> tasks s ! i = Running a
     \<Longrightarrow> tasks s ! j = Running c \<Longrightarrow> lock_key a = lock_key c \<Longrightarrow> i = j"
  unfolding consistent_def by blast

lemma consistent_values:
  "consistent s \<Longrightarrow> locks (shared s) k = None \<or> locks (shared s) k = Some True"
  unfolding consistent_def by blast

lemma consistent_owner:
  "consistent s \<Longrightarrow>
   locks (shared s) k = Some True
     \<longleftrightarrow> (\<exists>i < length (tasks s). \<exists>a. tasks s ! i = Running a \<and> lock_key a = k)"
  unfolding consistent_def by blast

lemma consistent_keyed:
  "consistent s \<Longrightarrow> i < length (tasks s) \<Longrightarrow> tasks s ! i = Running a \<or> tasks s ! i = Waiting a
     \<Longrightarrow> lock_key a = target a"
  unfolding consistent_def by blast

lemma consistent_idle: "consistent idle"
  by (rule consistentI) (simp_all add: idle_def quiet_def)


lemma consistent_append:
  assumes c: "consistent s"
    and t: "tasks s' = tasks s @ [t]" and l: "locks (shared s') = locks (shared s)"
    and nr: "\<And>a. t \<noteq> Running a" and w: "\<And>a. t = Waiting a \<Longrightarrow> lock_key a = target a"
  shows "consistent s'"
proof (rule consistentI)
  have old: "i < length (tasks s) \<and> tasks s ! i = Running a"
    if "i < length (tasks s')" "tasks s' ! i = Running a" for i a
    using that nr [of a] unfolding t by (cases "i < length (tasks s)") (simp_all add: nth_append)
  show "i = j"
    if "i < length (tasks s')" "j < length (tasks s')" "tasks s' ! i = Running a"
      "tasks s' ! j = Running c" "lock_key a = lock_key c" for i j a c
    using old [OF that(1,3)] old [OF that(2,4)] that(5) consistent_mutex [OF c] by blast
  show "locks (shared s') k = None \<or> locks (shared s') k = Some True" for k
    unfolding l by (rule consistent_values [OF c])
  show "locks (shared s') k = Some True
          \<longleftrightarrow> (\<exists>i < length (tasks s'). \<exists>a. tasks s' ! i = Running a \<and> lock_key a = k)" for k
  proof
    assume "locks (shared s') k = Some True"
    then obtain i a where "i < length (tasks s)" "tasks s ! i = Running a" "lock_key a = k"
      unfolding l consistent_owner [OF c] by blast
    then have "i < length (tasks s') \<and> tasks s' ! i = Running a \<and> lock_key a = k"
      unfolding t by (simp add: nth_append)
    then show "\<exists>i < length (tasks s'). \<exists>a. tasks s' ! i = Running a \<and> lock_key a = k"
      by blast
  next
    assume "\<exists>i < length (tasks s'). \<exists>a. tasks s' ! i = Running a \<and> lock_key a = k"
    then obtain i a where "i < length (tasks s')" "tasks s' ! i = Running a" "lock_key a = k"
      by blast
    with old [of i a] show "locks (shared s') k = Some True"
      unfolding l consistent_owner [OF c] by blast
  qed
  show "lock_key a = target a"
    if "i < length (tasks s')" "tasks s' ! i = Running a \<or> tasks s' ! i = Waiting a" for i a
  proof (cases "i < length (tasks s)")
    case True
    then have "tasks s' ! i = tasks s ! i" unfolding t by (simp add: nth_append)
    with that(2) consistent_keyed [OF c True, of a] show ?thesis by simp
  next
    case False
    with that(1) have "tasks s' ! i = t" unfolding t by (simp add: nth_append)
    with that(2) nr [of a] w [of a] show ?thesis by auto
  qed
qed

lemma consistent_acquire:
  assumes c: "consistent s"
    and i: "i < length (tasks s)" and wt: "tasks s ! i = Waiting j"
    and free: "locks (shared s) (lock_key j) \<noteq> Some True"
    and t: "tasks s' = (tasks s)[i := Running j]"
    and l: "locks (shared s') = (locks (shared s))(lock_key j \<mapsto> True)"
  shows "consistent s'"
proof (rule consistentI)
  have len: "length (tasks s') = length (tasks s)"
    unfolding t by simp
  have at: "tasks s' ! p = (if p = i then Running j else tasks s ! p)" if "p < length (tasks s)" for p
    unfolding t using that by (simp add: nth_list_update)
  have none: "lock_key a \<noteq> lock_key j" if "p < length (tasks s)" "tasks s ! p = Running a" for p a
    using free that unfolding consistent_owner [OF c] by blast
  have other: "p \<noteq> i \<and> tasks s ! p = Running a"
    if "p < length (tasks s)" "tasks s' ! p = Running a" "lock_key a \<noteq> lock_key j" for p a
    using that at [OF that(1)] by (cases "p = i") auto
  show "p = q"
    if "p < length (tasks s')" "q < length (tasks s')" "tasks s' ! p = Running a"
      "tasks s' ! q = Running e" "lock_key a = lock_key e" for p q a e
  proof (cases "lock_key a = lock_key j")
    case True
    have here: "x = i"
      if "x < length (tasks s)" "tasks s' ! x = Running y" "lock_key y = lock_key j" for x y
    proof (rule ccontr)
      assume "x \<noteq> i"
      then have "tasks s ! x = Running y"
        using at [OF that(1)] that(2) by simp
      then show False
        using none [OF that(1)] that(3) by blast
    qed
    have "lock_key e = lock_key j"
      using True that(5) by simp
    then have "q = i"
      using here [of q e] that(2,4) unfolding len by blast
    moreover have "p = i"
      using here [of p a] that(1,3) True unfolding len by blast
    ultimately show ?thesis by simp
  next
    case False
    moreover from False have "lock_key e \<noteq> lock_key j"
      using that(5) by simp
    ultimately have "tasks s ! p = Running a" "tasks s ! q = Running e"
      using other [of p a] other [of q e] that(1-4) unfolding len by blast+
    then show ?thesis
      using consistent_mutex [OF c, of p q a e] that(1,2,5) unfolding len by blast
  qed
  show "locks (shared s') k = None \<or> locks (shared s') k = Some True" for k
    unfolding l using consistent_values [OF c, of k] by simp
  show "locks (shared s') k = Some True
          \<longleftrightarrow> (\<exists>p < length (tasks s'). \<exists>a. tasks s' ! p = Running a \<and> lock_key a = k)" for k
  proof (cases "k = lock_key j")
    case True
    have "i < length (tasks s') \<and> tasks s' ! i = Running j \<and> lock_key j = k"
      using i at [OF i] True unfolding len by simp
    then have "\<exists>p < length (tasks s'). \<exists>a. tasks s' ! p = Running a \<and> lock_key a = k"
      by blast
    moreover have "locks (shared s') k = Some True"
      unfolding l using True by simp
    ultimately show ?thesis by simp
  next
    case False
    have "locks (shared s') k = locks (shared s) k"
      unfolding l using False by simp
    moreover have "(\<exists>p < length (tasks s'). \<exists>a. tasks s' ! p = Running a \<and> lock_key a = k)
            \<longleftrightarrow> (\<exists>p < length (tasks s). \<exists>a. tasks s ! p = Running a \<and> lock_key a = k)"
    proof
      assume "\<exists>p < length (tasks s'). \<exists>a. tasks s' ! p = Running a \<and> lock_key a = k"
      then obtain p a where "p < length (tasks s)" "tasks s' ! p = Running a" "lock_key a = k"
        unfolding len by blast
      with other [of p a] False
      show "\<exists>p < length (tasks s). \<exists>a. tasks s ! p = Running a \<and> lock_key a = k"
        by blast
    next
      assume "\<exists>p < length (tasks s). \<exists>a. tasks s ! p = Running a \<and> lock_key a = k"
      then obtain p a where pa: "p < length (tasks s)" "tasks s ! p = Running a" "lock_key a = k"
        by blast
      then have "p \<noteq> i" using wt by auto
      with pa at [of p] have "p < length (tasks s') \<and> tasks s' ! p = Running a \<and> lock_key a = k"
        unfolding len by simp
      then show "\<exists>p < length (tasks s'). \<exists>a. tasks s' ! p = Running a \<and> lock_key a = k"
        by blast
    qed
    ultimately show ?thesis
      using consistent_owner [OF c, of k] by simp
  qed
  show "lock_key a = target a"
    if "p < length (tasks s')" "tasks s' ! p = Running a \<or> tasks s' ! p = Waiting a" for p a
  proof (cases "p = i")
    case True
    with that at [of p] have "a = j" unfolding len by auto
    with consistent_keyed [OF c i, of j] wt show ?thesis by simp
  next
    case False
    with that at [of p] consistent_keyed [OF c, of p a] show ?thesis unfolding len by simp
  qed
qed

lemma consistent_settle:
  assumes c: "consistent s"
    and i: "i < length (tasks s)" and rn: "tasks s ! i = Running j"
    and t: "tasks s' = (tasks s)[i := Finished r]"
    and l: "locks (shared s') = (locks (shared s))(lock_key j := None)"
  shows "consistent s'"
proof (rule consistentI)
  have len: "length (tasks s') = length (tasks s)"
    unfolding t by simp
  have at: "tasks s' ! p = (if p = i then Finished r else tasks s ! p)" if "p < length (tasks s)" for p
    unfolding t using that by (simp add: nth_list_update)
  have old: "p \<noteq> i \<and> tasks s ! p = Running a \<and> lock_key a \<noteq> lock_key j"
    if "p < length (tasks s)" "tasks s' ! p = Running a" for p a
  proof -
    have "p \<noteq> i" "tasks s ! p = Running a"
      using that at [OF that(1)] by (cases "p = i"; simp)+
    moreover from this have "lock_key a \<noteq> lock_key j"
      using consistent_mutex [OF c that(1) i, of a j] rn by auto
    ultimately show ?thesis by simp
  qed
  show "p = q"
    if "p < length (tasks s')" "q < length (tasks s')" "tasks s' ! p = Running a"
      "tasks s' ! q = Running e" "lock_key a = lock_key e" for p q a e
  proof -
    have "tasks s ! p = Running a" "tasks s ! q = Running e"
      using old [of p a] old [of q e] that(1-4) unfolding len by blast+
    then show ?thesis
      using consistent_mutex [OF c, of p q a e] that(1,2,5) unfolding len by blast
  qed
  show "locks (shared s') k = None \<or> locks (shared s') k = Some True" for k
    unfolding l using consistent_values [OF c, of k] by simp
  show "locks (shared s') k = Some True
          \<longleftrightarrow> (\<exists>p < length (tasks s'). \<exists>a. tasks s' ! p = Running a \<and> lock_key a = k)" for k
  proof (cases "k = lock_key j")
    case True
    have "\<not> (\<exists>p < length (tasks s'). \<exists>a. tasks s' ! p = Running a \<and> lock_key a = k)"
      using old True unfolding len by blast
    moreover have "locks (shared s') k = None"
      unfolding l using True by simp
    ultimately show ?thesis by simp
  next
    case False
    have "locks (shared s') k = locks (shared s) k"
      unfolding l using False by simp
    moreover have "(\<exists>p < length (tasks s'). \<exists>a. tasks s' ! p = Running a \<and> lock_key a = k)
            \<longleftrightarrow> (\<exists>p < length (tasks s). \<exists>a. tasks s ! p = Running a \<and> lock_key a = k)"
    proof
      assume "\<exists>p < length (tasks s'). \<exists>a. tasks s' ! p = Running a \<and> lock_key a = k"
      then obtain p a where "p < length (tasks s)" "tasks s' ! p = Running a" "lock_key a = k"
        unfolding len by blast
      with old [of p a]
      show "\<exists>p < length (tasks s). \<exists>a. tasks s ! p = Running a \<and> lock_key a = k"
        by blast
    next
      assume "\<exists>p < length (tasks s). \<exists>a. tasks s ! p = Running a \<and> lock_key a = k"
      then obtain p a where pa: "p < length (tasks s)" "tasks s ! p = Running a" "lock_key a = k"
        by blast
      then have "p \<noteq> i" using rn False by auto
      with pa at [of p] have "p < length (tasks s') \<and> tasks s' ! p = Running a \<and> lock_key a = k"
        unfolding len by simp
      then show "\<exists>p < length (tasks s'). \<exists>a. tasks s' ! p = Running a \<and> lock_key a = k"
        by blast
    qed
    ultimately show ?thesis
      using consistent_owner [OF c, of k] by simp
  qed
  show "lock_key a = target a"
    if "p < length (tasks s')" "tasks s' ! p = Running a \<or> tasks s' ! p = Waiting a" for p a
  proof (cases "p = i")
    case True
    with that at [of p] show ?thesis unfolding len by auto
  next
    case False
    with that at [of p] consistent_keyed [OF c, of p a] show ?thesis unfolding len by simp
  qed
qed


lemma consistent_try_acquire:
  assumes "consistent s"
  shows "consistent (try_acquire i s)"
proof (cases "i < length (tasks s)")
  case False
  then show ?thesis using assms by (simp add: try_acquire_def)
next
  case i: True
  show ?thesis
  proof (cases "tasks s ! i")
    case (Waiting j)
    show ?thesis
    proof (cases "lock_held (shared s) (lock_key j)")
      case True
      then show ?thesis using assms i Waiting by (simp add: try_acquire_def)
    next
      case False
      let ?s' = "s\<lparr>shared := (shared s)\<lparr>locks := (locks (shared s))(lock_key j \<mapsto> True),
                                       calls := calls (shared s) @ [(target j, price j)]\<rparr>,
                  tasks := (tasks s)[i := Running j]\<rparr>"
      have "try_acquire i s = ?s'"
        using i Waiting False by (simp add: try_acquire_def)
      moreover have "consistent ?s'"
        using assms i Waiting
      proof (rule consistent_acquire)
        show "locks (shared s) (lock_key j) \<noteq> Some True"
          using False by (simp add: lock_held_def)
      qed simp_all
      ultimately show ?thesis by simp
    qed
  next
    case (Running j)
    then show ?thesis using assms i by (simp add: try_acquire_def)
  next
    case (Finished r)
    then show ?thesis using assms i by (simp add: try_acquire_def)
  qed
qed

lemma consistent_exec:
  assumes "consistent s"
  shows "consistent (exec s e)"
proof (cases e)
  case (Arrive b)
  show ?thesis
  proof (cases "update_protection_plan b")
    case (Inl resp)
    have "consistent (s\<lparr>tasks := tasks s @ [Finished resp]\<rparr>)"
      by (rule consistent_append [where s = s and t = "Finished resp", OF assms]) simp_all
    then show ?thesis using Arrive Inl by simp
  next
    case (Inr j)
    have k: "lock_key j = target j"
      using plan_target [OF Inr] by simp
    have "consistent (s\<lparr>tasks := tasks s @ [Waiting j]\<rparr>)"
      by (rule consistent_append [where s = s and t = "Waiting j", OF assms]) (simp_all add: k)
    then have "consistent (try_acquire (length (tasks s)) (s\<lparr>tasks := tasks s @ [Waiting j]\<rparr>))"
      by (rule consistent_try_acquire)
    then show ?thesis using Arrive Inr by simp
  qed
next
  case (Wake i)
  then show ?thesis using assms by (simp add: consistent_try_acquire)
next
  case (Settle i out)
  show ?thesis
  proof (cases "i < length (tasks s)")
    case False
    then show ?thesis using assms Settle by simp
  next
    case i: True
    show ?thesis
    proof (cases "tasks s ! i")
      case (Running j)
      let ?s' = "s\<lparr>shared := (shared s)\<lparr>locks := (locks (shared s))(lock_key j := None)\<rparr>,
                  tasks := (tasks s)[i := Finished (respond j (updateVariantPrice_result out))]\<rparr>"
      have "consistent ?s'"
        using assms i Running by (rule consistent_settle) simp_all
      then show ?thesis using Settle i Running by simp
    next
      case (Waiting j)
      then show ?thesis using assms Settle i by simp
    next
      case (Finished r)
      then show ?thesis using assms Settle i by simp
    qed
  qed
qed

lemma consistent_run: "consistent s \<Longrightarrow> consistent (run s evs)"
  unfolding run_def by (induction evs arbitrary: s) (simp_all add: consistent_exec)

lemma filter_at_most_one:
  assumes "\<And>i j. i < length xs \<Longrightarrow> j < length xs \<Longrightarrow> P (xs ! i) \<Longrightarrow> P (xs ! j) \<Longrightarrow> i = j"
  shows "length (filter P xs) \<le> 1"
  using assms
proof (induction xs)
  case Nil
  then show ?case by simp
next
  case (Cons x xs)
  have tail: "i = j" if "i < length xs" "j < length xs" "P (xs ! i)" "P (xs ! j)" for i j
    using Cons.prems [of "Suc i" "Suc j"] that by simp
  show ?case
  proof (cases "P x")
    case False
    then show ?thesis using Cons.IH [OF tail] by simp
  next
    case True
    have "\<not> P y" if "y \<in> set xs" for y
    proof
      assume "P y"
      from that obtain i where "i < length xs" "xs ! i = y"
        by (auto simp: in_set_conv_nth)
      with Cons.prems [of 0 "Suc i"] True \<open>P y\<close> show False by simp
    qed
    then have "filter P xs = []"
      by (simp add: filter_empty_conv)
    then show ?thesis using True by simp
  qed
qed

lemma in_flight_iff: "in_flight k t \<longleftrightarrow> (\<exists>a. t = Running a \<and> target a = k)"
  by (cases t) auto

text \<open>
  One key of the lock map at a time. After any sequence of events since the start of
  the process (requests arriving, timers of waiting requests firing, remote calls
  settling, in any order and with any outcomes), at most one task is between
  \<^verbatim>\<open>locks.set\<close> and the \<^verbatim>\<open>finally\<close> block of \<^verbatim>\<open>withLock\<close> for a given value \<open>k\<close> of the
  identifier, compared as the \<^verbatim>\<open>Map\<close> compares its keys.
\<close>

lemma one_update_per_key:
  "length (filter (in_flight k) (tasks (run idle evs))) \<le> 1"
proof (rule filter_at_most_one)
  let ?s = "run idle evs"
  have c: "consistent ?s"
    by (rule consistent_run [OF consistent_idle])
  fix i j
  assume i: "i < length (tasks ?s)" and j: "j < length (tasks ?s)"
    and "in_flight k (tasks ?s ! i)" and "in_flight k (tasks ?s ! j)"
  then obtain a e where a: "tasks ?s ! i = Running a" "target a = k"
    and e: "tasks ?s ! j = Running e" "target e = k"
    unfolding in_flight_iff by blast
  have "lock_key a = target a" "lock_key e = target e"
    using consistent_keyed [OF c i, of a] consistent_keyed [OF c j, of e] a e by simp_all
  then have "lock_key a = lock_key e"
    using a e by simp
  then show "i = j"
    using consistent_mutex [OF c i j a(1) e(1)] by simp
qed


text \<open>
  The events agree with the handler of a request running alone: when the lock is free,
  the arrival followed by the settling of the remote call leaves the reply and the state
  that \<open>update_protection\<close> returns; when the lock is held, the arrival leaves the task
  waiting, where \<open>update_protection\<close> has no result.
\<close>

lemma first_arrival:
  assumes "update_protection_plan b = Inr j" and "\<not> lock_held w (lock_key j)"
  shows "exec \<lparr>shared = w, tasks = []\<rparr> (Arrive b) =
           \<lparr>shared = w\<lparr>locks := (locks w)(lock_key j \<mapsto> True),
                         calls := calls w @ [(target j, price j)]\<rparr>,
             tasks = [Running j]\<rparr>"
  using assms by (simp add: try_acquire_def)

lemma arrival_waits:
  assumes "update_protection_plan b = Inr j" and "lock_held w (lock_key j)"
  shows "exec \<lparr>shared = w, tasks = []\<rparr> (Arrive b) = \<lparr>shared = w, tasks = [Waiting j]\<rparr>"
  using assms by (simp add: try_acquire_def)

lemma update_protection_as_events:
  assumes "update_protection_plan b = Inr j" and "\<not> lock_held w (lock_key j)"
    and "update_protection fetchFn b w = Some (resp, w')"
  shows "run \<lparr>shared = w, tasks = []\<rparr>
           [Arrive b,
            Settle 0 (fetchFn \<lparr>url_variant = target j, body_price = toFixed2 (price j)\<rparr>)]
         = \<lparr>shared = w', tasks = [Finished resp]\<rparr>"
proof -
  let ?out = "fetchFn \<lparr>url_variant = target j, body_price = toFixed2 (price j)\<rparr>"
  let ?s1 = "\<lparr>shared = w\<lparr>locks := (locks w)(lock_key j \<mapsto> True),
                           calls := calls w @ [(target j, price j)]\<rparr>,
               tasks = [Running j]\<rparr>"
  have resp: "resp = respond j (updateVariantPrice_result ?out)"
    and w': "w' = w\<lparr>locks := (locks w)(lock_key j := None),
                    calls := calls w @ [(target j, price j)]\<rparr>"
    using assms(3) unfolding update_protection_free [OF assms(1,2)] by simp_all
  have "exec ?s1 (Settle 0 ?out) = \<lparr>shared = w', tasks = [Finished resp]\<rparr>"
    unfolding resp w' by simp
  then show ?thesis
    unfolding run_def by (simp only: foldl.simps first_arrival [OF assms(1,2)])
qed

lemma second_request_waits:
  "tasks (run idle
      [Arrive \<lparr>subtotal = Num (Fin 50), reset = Undefined, new_price = Undefined,
               variant_id = Undefined\<rparr>,
       Arrive \<lparr>subtotal = Num (Fin 60), reset = Undefined, new_price = Undefined,
               variant_id = Undefined\<rparr>])
     = [Running \<lparr>lock_key = PROTECTION_VARIANT_DYNAMIC, target = PROTECTION_VARIANT_DYNAMIC,
                  price = literal (217 / 100), job_note = FixedNote (toFixed2 (Fin 50))\<rparr>,
        Waiting \<lparr>lock_key = PROTECTION_VARIANT_DYNAMIC, target = PROTECTION_VARIANT_DYNAMIC,
                  price = literal (217 / 100), job_note = FixedNote (toFixed2 (Fin 60))\<rparr>]
   \<and> length (filter (in_flight PROTECTION_VARIANT_DYNAMIC)
        (tasks (run idle
          [Arrive \<lparr>subtotal = Num (Fin 50), reset = Undefined, new_price = Undefined,
                   variant_id = Undefined\<rparr>,
           Arrive \<lparr>subtotal = Num (Fin 60), reset = Undefined, new_price = Undefined,
                   variant_id = Undefined\<rparr>]))) \<le> 1"
proof -
  have p1: "update_protection_plan
          \<lparr>subtotal = Num (Fin 50), reset = Undefined, new_price = Undefined,
            variant_id = Undefined\<rparr>
        = Inr \<lparr>lock_key = PROTECTION_VARIANT_DYNAMIC, target = PROTECTION_VARIANT_DYNAMIC,
               price = literal (217 / 100), job_note = FixedNote (toFixed2 (Fin 50))\<rparr>"
    by (rule plan_fixed) simp_all
  have p2: "update_protection_plan
          \<lparr>subtotal = Num (Fin 60), reset = Undefined, new_price = Undefined,
            variant_id = Undefined\<rparr>
        = Inr \<lparr>lock_key = PROTECTION_VARIANT_DYNAMIC, target = PROTECTION_VARIANT_DYNAMIC,
               price = literal (217 / 100), job_note = FixedNote (toFixed2 (Fin 60))\<rparr>"
    by (rule plan_fixed) simp_all
  have "tasks (run idle
      [Arrive \<lparr>subtotal = Num (Fin 50), reset = Undefined, new_price = Undefined,
               variant_id = Undefined\<rparr>,
       Arrive \<lparr>subtotal = Num (Fin 60), reset = Undefined, new_price = Undefined,
               variant_id = Undefined\<rparr>])
     = [Running \<lparr>lock_key = PROTECTION_VARIANT_DYNAMIC, target = PROTECTION_VARIANT_DYNAMIC,
                  price = literal (217 / 100), job_note = FixedNote (toFixed2 (Fin 50))\<rparr>,
        Waiting \<lparr>lock_key = PROTECTION_VARIANT_DYNAMIC, target = PROTECTION_VARIANT_DYNAMIC,
                  price = literal (217 / 100), job_note = FixedNote (toFixed2 (Fin 60))\<rparr>]"
    by (simp add: run_def idle_def quiet_def p1 p2 try_acquire_def lock_held_def)
  with one_update_per_key
    [of PROTECTION_VARIANT_DYNAMIC
      "[Arrive \<lparr>subtotal = Num (Fin 50), reset = Undefined, new_price = Undefined,
                variant_id = Undefined\<rparr>,
        Arrive \<lparr>subtotal = Num (Fin 60), reset = Undefined, new_price = Undefined,
                variant_id = Undefined\<rparr>]"]
  show ?thesis by blast
qed

lemma show_variant_number: "show_nat 45626932789401 = ''45626932789401''"
  by (simp add: show_nat.simps)

lemma show_123: "show_nat 123 = ''123''"
  by (simp add: show_nat.simps)

text \<open>
  Claim C7 says that two remote updates of one variant identifier are never in flight
  together. The lock map is keyed by the value that the request gives, while the remote
  variant is the one that the URL names by the text of that value. A request in
  calculation mode locks the configured string \<^verbatim>\<open>'45626932789401'\<close>; a reset request that
  gives the same identifier as the number \<open>45626932789401\<close> locks another key. When both
  arrive one after the other, both are running, and both write
  \<^verbatim>\<open>/variants/45626932789401.json\<close>. The same holds of two reset requests with the
  identifiers \<^verbatim>\<open>'123'\<close> and \<open>123\<close>.
\<close>

theorem C7_same_variant_twice_in_flight:
  "tasks (run idle
      [Arrive \<lparr>subtotal = Num (Fin 50), reset = Undefined, new_price = Undefined,
               variant_id = Undefined\<rparr>,
       Arrive \<lparr>subtotal = Undefined, reset = Bool True, new_price = Num (Fin 5),
               variant_id = Num (Fin 45626932789401)\<rparr>])
     = [Running \<lparr>lock_key = PROTECTION_VARIANT_DYNAMIC, target = PROTECTION_VARIANT_DYNAMIC,
                  price = literal (217 / 100), job_note = FixedNote (toFixed2 (Fin 50))\<rparr>,
        Running \<lparr>lock_key = Num (Fin 45626932789401), target = Num (Fin 45626932789401),
                  price = Fin 5, job_note = ResetNote (Fin 5)\<rparr>]
   \<and> length (filter (writes_variant (Chars ''45626932789401''))
        (tasks (run idle
          [Arrive \<lparr>subtotal = Num (Fin 50), reset = Undefined, new_price = Undefined,
                   variant_id = Undefined\<rparr>,
           Arrive \<lparr>subtotal = Undefined, reset = Bool True, new_price = Num (Fin 5),
                   variant_id = Num (Fin 45626932789401)\<rparr>]))) = 2
   \<and> length (filter (writes_variant (Chars ''123''))
        (tasks (run idle
          [Arrive \<lparr>subtotal = Undefined, reset = Bool True, new_price = Num (Fin 5),
                   variant_id = Str ''123''\<rparr>,
           Arrive \<lparr>subtotal = Undefined, reset = Bool True, new_price = Num (Fin 6),
                   variant_id = Num (Fin 123)\<rparr>]))) = 2"
proof -
  let ?a = "\<lparr>subtotal = Num (Fin 50), reset = Undefined, new_price = Undefined,
             variant_id = Undefined\<rparr>"
  let ?b = "\<lparr>subtotal = Undefined, reset = Bool True, new_price = Num (Fin 5),
             variant_id = Num (Fin 45626932789401)\<rparr>"
  let ?c = "\<lparr>subtotal = Undefined, reset = Bool True, new_price = Num (Fin 5),
             variant_id = Str ''123''\<rparr>"
  let ?d = "\<lparr>subtotal = Undefined, reset = Bool True, new_price = Num (Fin 6),
             variant_id = Num (Fin 123)\<rparr>"
  have text_n: "js_to_string (Num (Fin 45626932789401)) = Some (Chars ''45626932789401'')"
    by (simp add: show_variant_number)
  have text_s: "js_to_string PROTECTION_VARIANT_DYNAMIC = Some (Chars ''45626932789401'')"
    by (simp add: PROTECTION_VARIANT_DYNAMIC_def)
  have text_123: "js_to_string (Num (Fin 123)) = Some (Chars ''123'')"
    by (simp add: show_123)
  have pa: "update_protection_plan ?a
        = Inr \<lparr>lock_key = PROTECTION_VARIANT_DYNAMIC, target = PROTECTION_VARIANT_DYNAMIC,
               price = literal (217 / 100), job_note = FixedNote (toFixed2 (Fin 50))\<rparr>"
    by (rule plan_fixed) simp_all
  have pb: "update_protection_plan ?b
        = Inr \<lparr>lock_key = Num (Fin 45626932789401), target = Num (Fin 45626932789401),
               price = Fin 5, job_note = ResetNote (Fin 5)\<rparr>"
    using plan_reset [of ?b "Fin 5"] text_n by (simp add: js_or_def)
  have pc: "update_protection_plan ?c
        = Inr \<lparr>lock_key = Str ''123'', target = Str ''123'',
               price = Fin 5, job_note = ResetNote (Fin 5)\<rparr>"
    using plan_reset [of ?c "Fin 5"] by (simp add: js_or_def)
  have pd: "update_protection_plan ?d
        = Inr \<lparr>lock_key = Num (Fin 123), target = Num (Fin 123),
               price = Fin 6, job_note = ResetNote (Fin 6)\<rparr>"
    using plan_reset [of ?d "Fin 6"] text_123 by (simp add: js_or_def)
  have first: "tasks (run idle [Arrive ?a, Arrive ?b])
     = [Running \<lparr>lock_key = PROTECTION_VARIANT_DYNAMIC, target = PROTECTION_VARIANT_DYNAMIC,
                  price = literal (217 / 100), job_note = FixedNote (toFixed2 (Fin 50))\<rparr>,
        Running \<lparr>lock_key = Num (Fin 45626932789401), target = Num (Fin 45626932789401),
                  price = Fin 5, job_note = ResetNote (Fin 5)\<rparr>]"
    by (simp add: run_def idle_def quiet_def pa pb try_acquire_def lock_held_def
        PROTECTION_VARIANT_DYNAMIC_def)
  have second: "tasks (run idle [Arrive ?c, Arrive ?d])
     = [Running \<lparr>lock_key = Str ''123'', target = Str ''123'',
                  price = Fin 5, job_note = ResetNote (Fin 5)\<rparr>,
        Running \<lparr>lock_key = Num (Fin 123), target = Num (Fin 123),
                  price = Fin 6, job_note = ResetNote (Fin 6)\<rparr>]"
    by (simp add: run_def idle_def quiet_def pc pd try_acquire_def lock_held_def)
  have "length (filter (writes_variant (Chars ''45626932789401''))
          (tasks (run idle [Arrive ?a, Arrive ?b]))) = 2"
    unfolding first using text_n text_s by simp
  moreover have "length (filter (writes_variant (Chars ''123''))
          (tasks (run idle [Arrive ?c, Arrive ?d]))) = 2"
    unfolding second using text_123 by simp
  ultimately show ?thesis
    using first by simp
qed

section \<open>The lock is released\<close>

lemma withLock_releases:
  assumes "withLock key fn w = Some (r, w')"
  shows "locks w' key = None"
proof (cases "lock_held w key")
  case True
  then show ?thesis using assms by (simp add: withLock_held)
next
  case False
  then show ?thesis using assms unfolding withLock_free [OF False] by auto
qed

lemma settle_releases:
  assumes "i < length (tasks s)" and "tasks s ! i = Running a"
  shows "locks (shared (exec s (Settle i out))) (lock_key a) = None
         \<and> tasks (exec s (Settle i out)) ! i = Finished (respond a (updateVariantPrice_result out))"
  using assms by simp

lemma no_stale_lock:
  assumes "locks (shared (run idle evs)) k \<noteq> None"
  shows "\<exists>i < length (tasks (run idle evs)). in_flight k (tasks (run idle evs) ! i)"
proof -
  let ?s = "run idle evs"
  have c: "consistent ?s"
    by (rule consistent_run [OF consistent_idle])
  from assms consistent_values [OF c, of k] have "locks (shared ?s) k = Some True"
    by auto
  then obtain i a where i: "i < length (tasks ?s)" and a: "tasks ?s ! i = Running a" "lock_key a = k"
    unfolding consistent_owner [OF c] by blast
  have "target a = k"
    using consistent_keyed [OF c i, of a] a by simp
  with i a show ?thesis
    unfolding in_flight_iff by blast
qed

text \<open>
  Claim C8. When the guarded function has run, \<^verbatim>\<open>withLock\<close> leaves no entry for the key in
  the lock map, whether the function returned or threw (\<open>r\<close> is any outcome). Among
  requests in flight together: when the remote call of a running task settles, with
  whatever outcome, the key of the task is removed from the map and the task has its
  reply; and after any sequence of events, every key in the lock map belongs to a task
  whose update is in flight.
\<close>

theorem C8_lock_released_on_completion:
  "(\<forall>r w'. withLock key fn w = Some (r, w') \<longrightarrow> locks w' key = None)
   \<and> (\<forall>i a out. i < length (tasks (run idle evs)) \<and> tasks (run idle evs) ! i = Running a \<longrightarrow>
         locks (shared (exec (run idle evs) (Settle i out))) (lock_key a) = None
         \<and> tasks (exec (run idle evs) (Settle i out)) ! i
             = Finished (respond a (updateVariantPrice_result out)))
   \<and> (\<forall>k. locks (shared (run idle evs)) k \<noteq> None \<longrightarrow>
         (\<exists>i < length (tasks (run idle evs)). in_flight k (tasks (run idle evs) ! i)))"
  using withLock_releases [of key fn w] settle_releases [of _ "run idle evs"]
    no_stale_lock [of evs]
  by blast


theorem C8_lock_released_on_completion_witness:
  "tasks (run idle
      [Arrive \<lparr>subtotal = Num (Fin 50), reset = Undefined, new_price = Undefined,
               variant_id = Undefined\<rparr>]) ! 0
     = Running \<lparr>lock_key = PROTECTION_VARIANT_DYNAMIC, target = PROTECTION_VARIANT_DYNAMIC,
                 price = literal (217 / 100), job_note = FixedNote (toFixed2 (Fin 50))\<rparr>
   \<and> locks (shared (run idle
      [Arrive \<lparr>subtotal = Num (Fin 50), reset = Undefined, new_price = Undefined,
               variant_id = Undefined\<rparr>])) PROTECTION_VARIANT_DYNAMIC = Some True
   \<and> locks (shared (exec (run idle
      [Arrive \<lparr>subtotal = Num (Fin 50), reset = Undefined, new_price = Undefined,
               variant_id = Undefined\<rparr>]) (Settle 0 (Rejects (Error ''fetch failed'' None)))))
        PROTECTION_VARIANT_DYNAMIC = None
   \<and> (\<exists>i < length (tasks (run idle
      [Arrive \<lparr>subtotal = Num (Fin 50), reset = Undefined, new_price = Undefined,
               variant_id = Undefined\<rparr>])).
        in_flight PROTECTION_VARIANT_DYNAMIC (tasks (run idle
      [Arrive \<lparr>subtotal = Num (Fin 50), reset = Undefined, new_price = Undefined,
               variant_id = Undefined\<rparr>]) ! i))
   \<and> (\<exists>e w'. withLock PROTECTION_VARIANT_DYNAMIC
          (updateVariantPrice remote_refuses PROTECTION_VARIANT_DYNAMIC (literal (217 / 100))) quiet
          = Some (Inl e, w') \<and> locks w' PROTECTION_VARIANT_DYNAMIC = None)"
proof -
  let ?b = "\<lparr>subtotal = Num (Fin 50), reset = Undefined, new_price = Undefined,
             variant_id = Undefined\<rparr>"
  let ?j = "\<lparr>lock_key = PROTECTION_VARIANT_DYNAMIC, target = PROTECTION_VARIANT_DYNAMIC,
              price = literal (217 / 100), job_note = FixedNote (toFixed2 (Fin 50))\<rparr>"
  let ?fn = "updateVariantPrice remote_refuses PROTECTION_VARIANT_DYNAMIC (literal (217 / 100))"
  have plan: "update_protection_plan ?b = Inr ?j"
    by (rule plan_fixed) simp_all
  have "run idle [Arrive ?b] = exec \<lparr>shared = quiet, tasks = []\<rparr> (Arrive ?b)"
    by (simp add: run_def idle_def)
  then have s1: "run idle [Arrive ?b]
      = \<lparr>shared = quiet\<lparr>locks := (locks quiet)(PROTECTION_VARIANT_DYNAMIC \<mapsto> True),
                        calls := calls quiet @ [(PROTECTION_VARIANT_DYNAMIC, literal (217 / 100))]\<rparr>,
         tasks = [Running ?j]\<rparr>"
    using first_arrival [OF plan, of quiet] by (simp add: quiet_free)
  have running: "tasks (run idle [Arrive ?b]) ! 0 = Running ?j"
    and held: "locks (shared (run idle [Arrive ?b])) PROTECTION_VARIANT_DYNAMIC = Some True"
    and len: "0 < length (tasks (run idle [Arrive ?b]))"
    unfolding s1 by simp_all
  have thrown: "\<exists>e w'. withLock PROTECTION_VARIANT_DYNAMIC ?fn quiet = Some (Inl e, w')"
    unfolding withLock_free [OF quiet_free]
    by (simp add: updateVariantPrice_def remote_refuses_def updateVariantPrice_result_def)
  from C8_lock_released_on_completion
    [of PROTECTION_VARIANT_DYNAMIC ?fn quiet "[Arrive ?b]"]
  show ?thesis
    using running held len thrown by fastforce
qed

end
